theory Spec2Isabelle
  imports Complex_Main
begin

section \<open>DroneScan: a shallow embedding of \<open>tools/dronescan.py\<close>\<close>

text \<open>
  Python strings are modelled as \<open>string\<close>: lists of 8-bit characters, read as
  the code points below 256. \<open>str.strip\<close> is written out for that range (the
  whitespace of Python's \<open>str\<close> below 256). \<open>str.upper\<close> is written out for
  ASCII; a character from 128 on is left as it is, where Python may map it to
  another character or to several. What is proved through \<open>upper\<close> is
  therefore either stated for addresses spelled with hexadecimal digits and
  separators, or uses of \<open>upper\<close> only that its result holds no letter from
  \<open>a\<close> to \<open>z\<close>, which \<open>str.upper\<close> satisfies on every string. The other
  properties hold for any trimming and upper-casing function: their proofs
  leave \<open>strip\<close> and \<open>upper\<close> uninterpreted.
\<close>

subsection \<open>String helpers (\<open>str.strip\<close>, \<open>str.upper\<close>, \<open>str.replace\<close>, \<open>str.split\<close>, \<open>str.join\<close>)\<close>

definition whitespace :: "char list" where
  "whitespace = [CHR 0x09, CHR 0x0A, CHR 0x0B, CHR 0x0C, CHR 0x0D,
                 CHR 0x1C, CHR 0x1D, CHR 0x1E, CHR 0x1F, CHR '' '', CHR 0x85, CHR 0xA0]"

definition is_space :: "char \<Rightarrow> bool" where
  "is_space c = (c \<in> set whitespace)"

definition strip :: "string \<Rightarrow> string" where
  "strip s = rev (dropWhile is_space (rev (dropWhile is_space s)))"

definition ascii_lower :: "char list" where
  "ascii_lower = ''abcdefghijklmnopqrstuvwxyz''"

definition ascii_upper :: "char list" where
  "ascii_upper = ''ABCDEFGHIJKLMNOPQRSTUVWXYZ''"

definition upper_char :: "char \<Rightarrow> char" where
  "upper_char c = (case map_of (zip ascii_lower ascii_upper) c of None \<Rightarrow> c | Some u \<Rightarrow> u)"

definition upper :: "string \<Rightarrow> string" where
  "upper s = map upper_char s"

definition replace_chr :: "char \<Rightarrow> char \<Rightarrow> string \<Rightarrow> string" where
  "replace_chr old new s = map (\<lambda>c. if c = old then new else c) s"

fun split_chr :: "char \<Rightarrow> string \<Rightarrow> string list" where
  "split_chr sep [] = [[]]"
| "split_chr sep (c # cs) =
     (if c = sep then [] # split_chr sep cs
      else (case split_chr sep cs of
              [] \<Rightarrow> [[c]]
            | p # ps \<Rightarrow> (c # p) # ps))"

fun join :: "string \<Rightarrow> string list \<Rightarrow> string" where
  "join sep [] = []"
| "join sep [p] = p"
| "join sep (p # q # ps) = p @ sep @ join sep (q # ps)"

definition startswith :: "string \<Rightarrow> string \<Rightarrow> bool" where
  "startswith s p = (take (length p) s = p)"

subsection \<open>\<open>mac_to_oui\<close>\<close>

definition mac_to_oui :: "string \<Rightarrow> string" where
  "mac_to_oui mac0 =
     (let mac = replace_chr CHR ''-'' CHR '':'' (upper (strip mac0))
      in if length mac \<noteq> 17 \<or> count_list mac CHR '':'' \<noteq> 5 then ''''
         else join '':'' (take 3 (split_chr CHR '':'' mac)))"

text \<open>
  Two spellings of one address: character by character they differ at most in
  letter case or in the separator used (\<open>-\<close> or \<open>:\<close>).
\<close>

definition same_char :: "char \<Rightarrow> char \<Rightarrow> bool" where
  "same_char a b =
     (upper_char a = upper_char b \<or> (a \<in> {CHR ''-'', CHR '':''} \<and> b \<in> {CHR ''-'', CHR '':''}))"

definition same_address :: "string \<Rightarrow> string \<Rightarrow> bool" where
  "same_address m1 m2 = list_all2 same_char m1 m2"

definition has_ascii_lower :: "string \<Rightarrow> bool" where
  \<comment> \<open>some character is one of the ASCII letters \<open>a\<close> to \<open>z\<close>\<close>
  "has_ascii_lower s = (\<exists>c \<in> set s. c \<in> set ascii_lower)"

definition norm_char :: "char \<Rightarrow> char" where
  \<comment> \<open>what \<open>.upper().replace("-", ":")\<close> does to one character\<close>
  "norm_char c = (if upper_char c = CHR ''-'' then CHR '':'' else upper_char c)"

text \<open>
  A hardware address as it is written: six octets, each two hexadecimal digits
  in either letter case, with a separator, \<open>-\<close> or \<open>:\<close>, between neighbours.
\<close>

definition hex_digit :: "char \<Rightarrow> bool" where
  "hex_digit c = (c \<in> set ''0123456789abcdefABCDEF'')"

definition octet :: "string \<Rightarrow> bool" where
  "octet g = (length g = 2 \<and> list_all hex_digit g)"

definition separator :: "char \<Rightarrow> bool" where
  "separator c = (c \<in> set ''-:'')"

text \<open>
  The test \<open>mac_to_oui\<close> applies to the normalised address, and the canonical
  form \<open>XX:XX:XX:XX:XX:XX\<close>: six groups of two characters with colons between
  them (whatever the characters are).
\<close>

definition length_test :: "string \<Rightarrow> bool" where
  \<comment> \<open>the negation of \<open>len(mac) != 17 or mac.count(":") != 5\<close>\<close>
  "length_test mac = (length mac = 17 \<and> count_list mac CHR '':'' = 5)"

definition canonical_form :: "string \<Rightarrow> bool" where
  "canonical_form mac =
     (let parts = split_chr CHR '':'' mac
      in length parts = 6 \<and> list_all (\<lambda>g. length g = 2) parts)"

subsection \<open>Exceptions\<close>

text \<open>
  The exceptions the modelled calls raise; all of them are instances of Python's
  \<open>Exception\<close>, and \<open>OSError\<close> stands for any operating-system error other than
  \<open>FileNotFoundError\<close>. Asynchronous interrupts are outside the model.
\<close>

datatype exn = FileNotFoundError | OSError | CsvError | UnicodeDecodeError | TimeoutExpired

subsection \<open>\<open>load_ouis\<close>\<close>

text \<open>
  A row of \<open>csv.DictReader\<close> maps a column name to its value; \<open>None\<close> stands for
  a column the row does not have. A data file is absent (\<open>p.exists()\<close> is false),
  unreadable (opening or decoding it raises), or a list of rows.
\<close>

type_synonym csv_row = "string \<rightharpoonup> string"

datatype data_file = Unreadable exn | Rows "csv_row list"

definition row_get :: "csv_row \<Rightarrow> string \<Rightarrow> string" where
  \<comment> \<open>\<open>row.get(k) or ""\<close>\<close>
  "row_get row k = (case row k of None \<Rightarrow> [] | Some v \<Rightarrow> v)"

definition add_row :: "csv_row \<Rightarrow> string set \<Rightarrow> string set" where
  "add_row row ouis =
     (let oui = replace_chr CHR ''-'' CHR '':'' (upper (strip (row_get row ''oui'')));
          parts = split_chr CHR '':'' oui
      in if length parts = 3 \<and> list_all (\<lambda>x. length x = 2) parts
         then insert (join '':'' parts) ouis
         else ouis)"

definition oui_sources :: "bool \<Rightarrow> string list" where
  "oui_sources include_modules =
     [''oui_drones.csv''] @ (if include_modules then [''oui_modules.csv''] else [])"

fun load_sources :: "(string \<rightharpoonup> data_file) \<Rightarrow> string list \<Rightarrow> string set \<Rightarrow> exn + string set" where
  "load_sources data_dir [] ouis = Inr ouis"
| "load_sources data_dir (name # names) ouis =
     (case data_dir name of
        None \<Rightarrow> load_sources data_dir names ouis
      | Some (Unreadable e) \<Rightarrow> Inl e
      | Some (Rows rows) \<Rightarrow> load_sources data_dir names (fold add_row rows ouis))"

definition load_ouis :: "(string \<rightharpoonup> data_file) \<Rightarrow> bool \<Rightarrow> exn + string set" where
  "load_ouis data_dir include_modules =
     load_sources data_dir (oui_sources include_modules) {}"

text \<open>The shape the loader checks, and the shape the specification names.\<close>

definition is_hex :: "char \<Rightarrow> bool" where
  "is_hex c = (c \<in> set ''0123456789ABCDEF'')"

definition two_char_groups :: "string \<Rightarrow> bool" where
  "two_char_groups s =
     (let parts = split_chr CHR '':'' s
      in length parts = 3 \<and> list_all (\<lambda>g. length g = 2) parts)"

definition hex_groups :: "string \<Rightarrow> bool" where
  "hex_groups s =
     (let parts = split_chr CHR '':'' s
      in length parts = 3 \<and> list_all (\<lambda>g. length g = 2 \<and> list_all is_hex g) parts)"

subsection \<open>\<open>parse_airodump_csv\<close>\<close>

record ap =
  bssid :: string
  essid :: string
  channel :: string
  power :: string
  first_seen :: string
  last_seen :: string

text \<open>
  What \<open>csv.reader\<close> yields, item by item: a row (a list of fields; the empty
  list for a blank line) or a \<open>csv.Error\<close> raised when that row is read. What
  \<open>open\<close> does with a path: it raises, or gives the file's items.
\<close>

datatype csv_item = Row "string list" | RowError

datatype open_result = OpenRaises exn | Opened "csv_item list"

definition make_ap :: "string list \<Rightarrow> ap" where
  "make_ap row =
     \<lparr> bssid = upper (strip (row ! 0)),
       essid = strip (row ! 13),
       channel = strip (row ! 3),
       power = strip (row ! 8),
       first_seen = strip (row ! 1),
       last_seen = strip (row ! 2) \<rparr>"

fun scan_rows :: "bool \<Rightarrow> csv_item list \<Rightarrow> ap list \<Rightarrow> exn + ap list" where
  "scan_rows header_seen [] aps = Inr aps"
| "scan_rows header_seen (RowError # rest) aps = Inl CsvError"
| "scan_rows header_seen (Row [] # rest) aps =
     (if header_seen then Inr aps else scan_rows header_seen rest aps)"
| "scan_rows header_seen (Row (f # fs) # rest) aps =
     (if startswith (upper (strip f)) ''BSSID'' then scan_rows True rest aps
      else if \<not> header_seen then scan_rows header_seen rest aps
      else if length (f # fs) < 14 then scan_rows header_seen rest aps
      else scan_rows header_seen rest (aps @ [make_ap (f # fs)]))"

definition parse_airodump_csv :: "(string \<Rightarrow> open_result) \<Rightarrow> string \<Rightarrow> exn + ap list" where
  "parse_airodump_csv fs path =
     (case fs path of
        OpenRaises e \<Rightarrow> (if e = FileNotFoundError then Inr [] else Inl e)
      | Opened items \<Rightarrow>
          (case scan_rows False items [] of
             Inl e \<Rightarrow> (if e = FileNotFoundError then Inr [] else Inl e)
           | Inr aps \<Rightarrow> Inr aps))"

text \<open>The parsing rule in the words of the code, and in the words of the specification.\<close>

definition is_header :: "string list \<Rightarrow> bool" where
  "is_header row = (row \<noteq> [] \<and> startswith (upper (strip (hd row))) ''BSSID'')"

definition ap_table :: "string list list \<Rightarrow> ap list" where
  "ap_table rows =
     map make_ap
       (filter (\<lambda>r. \<not> is_header r \<and> 14 \<le> length r)
          (takeWhile (\<lambda>r. r \<noteq> []) (tl (dropWhile (\<lambda>r. \<not> is_header r) rows))))"

definition marker_equal :: "string list \<Rightarrow> bool" where
  "marker_equal row = (row \<noteq> [] \<and> upper (hd row) = ''BSSID'')"

definition ap_table_as_specified :: "string list list \<Rightarrow> ap list" where
  "ap_table_as_specified rows =
     map make_ap
       (filter (\<lambda>r. 14 \<le> length r)
          (takeWhile (\<lambda>r. r \<noteq> []) (tl (dropWhile (\<lambda>r. \<not> marker_equal r) rows))))"

subsection \<open>\<open>AirodumpRunner\<close>\<close>

text \<open>
  The capture process as the runner sees it: whether it still runs (what
  \<open>poll()\<close> reports) and the signals it has been sent.
\<close>

datatype proc_status = Running | Exited int

datatype signal = SIGTERM | SIGKILL

record popen =
  status :: proc_status
  signals :: "signal list"

record runner =
  iface :: string
  prefix :: string
  band :: "string option"
  channels :: "string option"
  write_interval :: int
  airodump_bin :: string
  proc :: "popen option"

definition digit_char :: "nat \<Rightarrow> char" where
  "digit_char d = ''0123456789'' ! d"

fun str_nat :: "nat \<Rightarrow> string" where
  "str_nat n = (if n < 10 then [digit_char n] else str_nat (n div 10) @ [digit_char (n mod 10)])"

declare str_nat.simps [simp del]

definition str_int :: "int \<Rightarrow> string" where
  \<comment> \<open>\<open>str(i)\<close> for an integer\<close>
  "str_int i = (if i < 0 then CHR ''-'' # str_nat (nat (- i)) else str_nat (nat i))"

definition truthy :: "string option \<Rightarrow> bool" where
  \<comment> \<open>\<open>if v:\<close> for an optional string: neither \<open>None\<close> nor empty\<close>
  "truthy v = (case v of None \<Rightarrow> False | Some s \<Rightarrow> s \<noteq> [])"

definition str_of :: "string option \<Rightarrow> string" where
  "str_of v = (case v of None \<Rightarrow> [] | Some s \<Rightarrow> s)"

definition base_cmd :: "runner \<Rightarrow> string list" where
  "base_cmd r =
     [airodump_bin r, iface r, ''--output-format'', ''csv'', ''--write'', prefix r,
      ''--write-interval'', str_int (write_interval r)]"

definition start_cmd :: "runner \<Rightarrow> string list" where
  "start_cmd r =
     base_cmd r @
     (if truthy (channels r) then [''--channel'', str_of (channels r)]
      else if truthy (band r) then [''--band'', str_of (band r)]
      else [])"

definition start :: "(string list \<Rightarrow> exn + popen) \<Rightarrow> runner \<Rightarrow> exn + (runner \<times> string list)" where
  \<comment> \<open>\<open>spawn\<close> is \<open>subprocess.Popen\<close>: it raises or gives the new process\<close>
  "start spawn r =
     (let cmd = start_cmd r
      in case spawn cmd of
           Inl e \<Rightarrow> Inl e
         | Inr p \<Rightarrow> Inr (r\<lparr>proc := Some p\<rparr>, cmd))"

definition flag_free :: "runner \<Rightarrow> bool" where
  \<comment> \<open>none of the configured strings is itself spelled like one of the two flags\<close>
  "flag_free r =
     (''--channel'' \<notin> set [airodump_bin r, iface r, prefix r, str_of (channels r), str_of (band r)]
      \<and> ''--band'' \<notin> set [airodump_bin r, iface r, prefix r, str_of (channels r), str_of (band r)])"

text \<open>
  What the operating system answers to the three calls of \<open>stop\<close>:
  \<open>terminate()\<close> and \<open>kill()\<close> raise or deliver their signal, \<open>wait(timeout=2)\<close>
  raises (\<open>TimeoutExpired\<close> when the process is still running) or returns the
  exit code. An exception leaves the process as the calls before it made it, so
  each step returns the exception, if any, with the process.
\<close>

record os_env =
  terminate_result :: "exn option"
  wait_result :: "exn + int"
  kill_result :: "exn option"

definition terminate :: "os_env \<Rightarrow> popen \<Rightarrow> exn option \<times> popen" where
  "terminate env p =
     (case terminate_result env of
        Some e \<Rightarrow> (Some e, p)
      | None \<Rightarrow> (None, p\<lparr>signals := signals p @ [SIGTERM]\<rparr>))"

definition wait :: "os_env \<Rightarrow> popen \<Rightarrow> exn option \<times> popen" where
  "wait env p =
     (case wait_result env of
        Inl e \<Rightarrow> (Some e, p)
      | Inr rc \<Rightarrow> (None, p\<lparr>status := Exited rc\<rparr>))"

definition kill :: "os_env \<Rightarrow> popen \<Rightarrow> exn option \<times> popen" where
  "kill env p =
     (case kill_result env of
        Some e \<Rightarrow> (Some e, p)
      | None \<Rightarrow> (None, p\<lparr>signals := signals p @ [SIGKILL]\<rparr>))"

definition wait_or_kill :: "os_env \<Rightarrow> popen \<Rightarrow> exn option \<times> popen" where
  \<comment> \<open>the inner \<open>try\<close>: only \<open>TimeoutExpired\<close> is handled, by \<open>kill()\<close>\<close>
  "wait_or_kill env p =
     (case wait env p of
        (Some TimeoutExpired, p') \<Rightarrow> kill env p'
      | (e, p') \<Rightarrow> (e, p'))"

definition terminate_and_wait :: "os_env \<Rightarrow> popen \<Rightarrow> exn option \<times> popen" where
  \<comment> \<open>the body of the outer \<open>try\<close>\<close>
  "terminate_and_wait env p =
     (case terminate env p of
        (Some e, p') \<Rightarrow> (Some e, p')
      | (None, p') \<Rightarrow> wait_or_kill env p')"

definition stop :: "os_env \<Rightarrow> runner \<Rightarrow> exn option \<times> runner" where
  \<comment> \<open>the first component is the exception that leaves \<open>stop\<close>, if any;
      \<open>except Exception: pass\<close> handles every exception of the body\<close>
  "stop env r =
     (case proc r of
        None \<Rightarrow> (None, r)
      | Some p \<Rightarrow>
          if status p = Running
          then (case terminate_and_wait env p of
                  (Some e, p') \<Rightarrow> (None, r\<lparr>proc := Some p'\<rparr>)
                | (None, p') \<Rightarrow> (None, r\<lparr>proc := Some p'\<rparr>))
          else (None, r))"

fun stop_all :: "os_env list \<Rightarrow> runner \<Rightarrow> exn option \<times> runner" where
  \<comment> \<open>one call of \<open>stop\<close> after another; the first exception ends the sequence\<close>
  "stop_all [] r = (None, r)"
| "stop_all (env # envs) r =
     (case stop env r of
        (Some e, r') \<Rightarrow> (Some e, r')
      | (None, r') \<Rightarrow> stop_all envs r')"

subsection \<open>The detection loop of \<open>main\<close>\<close>

datatype severity = DRONE_CONFIRMED | OUI_MATCH | SSID_MATCH

text \<open>
  A compiled pattern is what \<open>rx.search\<close> answers for a name; the rule set is
  the dictionary of labels in its insertion order. A de-duplication key is the
  tuple \<open>(severity, oui if oui_hit else "", essid)\<close>; \<open>last_emit\<close> maps a key to
  the time of its last emission. Times are real numbers of seconds.
\<close>

type_synonym pattern = "string \<Rightarrow> bool"

type_synonym ssid_rules = "(string \<times> pattern list) list"

type_synonym dedup_key = "severity \<times> string \<times> string"

type_synonym last_emit = "dedup_key \<rightharpoonup> real"

record payload =
  p_time :: string
  p_severity :: severity
  p_bssid :: string
  p_channel :: string
  p_power :: string
  p_ssid :: "string option"
  p_oui :: "string option"
  p_ssid_labels :: "string list option"
  p_source :: string
  p_csv :: string

definition last_time :: "last_emit \<Rightarrow> dedup_key \<Rightarrow> real" where
  \<comment> \<open>\<open>last_emit.get(key, 0)\<close>\<close>
  "last_time le key = (case le key of None \<Rightarrow> 0 | Some t \<Rightarrow> t)"

definition should_emit :: "int \<Rightarrow> last_emit \<Rightarrow> dedup_key \<Rightarrow> real \<Rightarrow> bool \<times> last_emit" where
  "should_emit dedup_secs le key now_ts =
     (let prev = last_time le key
      in if now_ts - prev \<ge> of_int dedup_secs then (True, le(key \<mapsto> now_ts))
         else (False, le))"

definition oui_check :: "string set \<Rightarrow> string \<Rightarrow> bool" where
  \<comment> \<open>\<open>oui in ouis if oui else False\<close>\<close>
  "oui_check ouis oui = (if oui \<noteq> [] then oui \<in> ouis else False)"

definition ssid_check :: "ssid_rules \<Rightarrow> string \<Rightarrow> string list" where
  "ssid_check rules name =
     (if name \<noteq> []
      then map fst (filter (\<lambda>(label, rxs). list_ex (\<lambda>rx. rx name) rxs) rules)
      else [])"

definition classify :: "bool \<Rightarrow> string list \<Rightarrow> severity option" where
  "classify oui_hit ssid_hits =
     (if oui_hit \<and> ssid_hits \<noteq> [] then Some DRONE_CONFIRMED
      else if oui_hit then Some OUI_MATCH
      else if ssid_hits \<noteq> [] then Some SSID_MATCH
      else None)"

definition none_if_empty :: "'a list \<Rightarrow> 'a list option" where
  \<comment> \<open>\<open>x or None\<close>\<close>
  "none_if_empty xs = (if xs = [] then None else Some xs)"

definition process_row ::
  "string set \<Rightarrow> ssid_rules \<Rightarrow> int \<Rightarrow> string \<Rightarrow> real \<Rightarrow> string \<Rightarrow> last_emit \<Rightarrow> ap
     \<Rightarrow> payload option \<times> last_emit" where
  \<comment> \<open>one pass of the loop body over a record: the alert emitted, if any, and the
      de-duplication state afterwards\<close>
  "process_row ouis rules dedup_secs now_iso now csv_path le ap_row =
     (if bssid ap_row = [] then (None, le)
      else
        let oui = mac_to_oui (bssid ap_row);
            oui_hit = oui_check ouis oui;
            ssid_hits = ssid_check rules (essid ap_row)
        in case classify oui_hit ssid_hits of
             None \<Rightarrow> (None, le)
           | Some sev \<Rightarrow>
               (case should_emit dedup_secs le (sev, if oui_hit then oui else [], essid ap_row) now of
                  (False, le') \<Rightarrow> (None, le')
                | (True, le') \<Rightarrow>
                    (Some \<lparr> p_time = now_iso,
                            p_severity = sev,
                            p_bssid = bssid ap_row,
                            p_channel = channel ap_row,
                            p_power = power ap_row,
                            p_ssid = none_if_empty (essid ap_row),
                            p_oui = (if oui_hit then Some oui else None),
                            p_ssid_labels = none_if_empty ssid_hits,
                            p_source = ''dronescan(airodump-ng)'',
                            p_csv = csv_path \<rparr>,
                     le')))"

fun process_rows ::
  "string set \<Rightarrow> ssid_rules \<Rightarrow> int \<Rightarrow> string \<Rightarrow> real \<Rightarrow> string \<Rightarrow> last_emit \<Rightarrow> ap list
     \<Rightarrow> payload list \<times> last_emit" where
  \<comment> \<open>the \<open>for ap_row in aps\<close> loop of one poll: the alerts in order of emission\<close>
  "process_rows ouis rules dedup_secs now_iso now csv_path le [] = ([], le)"
| "process_rows ouis rules dedup_secs now_iso now csv_path le (ap_row # aps) =
     (case process_row ouis rules dedup_secs now_iso now csv_path le ap_row of
        (alert, le') \<Rightarrow>
          (case process_rows ouis rules dedup_secs now_iso now csv_path le' aps of
             (alerts, le'') \<Rightarrow> ((case alert of None \<Rightarrow> [] | Some a \<Rightarrow> [a]) @ alerts, le'')))"

definition severity_of :: "string set \<Rightarrow> ssid_rules \<Rightarrow> ap \<Rightarrow> severity option" where
  \<comment> \<open>the severity the loop body assigns to a record with a hardware address\<close>
  "severity_of ouis rules ap_row =
     classify (oui_check ouis (mac_to_oui (bssid ap_row))) (ssid_check rules (essid ap_row))"

definition some_pattern_matches :: "ssid_rules \<Rightarrow> string \<Rightarrow> bool" where
  "some_pattern_matches rules name = list_ex (\<lambda>(label, rxs). list_ex (\<lambda>rx. rx name) rxs) rules"

section \<open>Properties\<close>

subsection \<open>Strings\<close>

lemma upper_char_not_lower: "upper_char c \<notin> set ascii_lower"
proof (cases "map_of (zip ascii_lower ascii_upper) c")
  case None
  moreover have "dom (map_of (zip ascii_lower ascii_upper)) = set ascii_lower"
    by (rule dom_map_of_zip) (simp add: ascii_lower_def ascii_upper_def)
  ultimately have "c \<notin> set ascii_lower" by (metis domIff)
  with None show ?thesis by (simp add: upper_char_def)
next
  case (Some u)
  then have "u \<in> set ascii_upper" by (meson map_of_SomeD set_zip_rightD)
  moreover have "set ascii_upper \<inter> set ascii_lower = {}"
    by (simp add: ascii_lower_def ascii_upper_def)
  ultimately show ?thesis using Some by (auto simp: upper_char_def)
qed

lemma upper_char_space: "is_space (upper_char c) = is_space c"
proof (cases "map_of (zip ascii_lower ascii_upper) c")
  case None
  then show ?thesis by (simp add: upper_char_def)
next
  case (Some u)
  then have u: "u \<in> set ascii_upper" and c: "c \<in> set ascii_lower" 
    by (meson map_of_SomeD set_zip_rightD set_zip_leftD)+
  have "set ascii_upper \<inter> set whitespace = {}" "set ascii_lower \<inter> set whitespace = {}"
    by (simp_all add: ascii_lower_def ascii_upper_def whitespace_def)
  with u c Some show ?thesis by (auto simp: upper_char_def is_space_def)
qed


lemma split_chr_not_Nil: "split_chr sep s \<noteq> []"
  by (induction s) (auto split: list.splits)

lemma join_Cons: "ps \<noteq> [] \<Longrightarrow> join sep (p # ps) = p @ sep @ join sep ps"
  by (cases ps) simp_all

lemma join_split: "join [sep] (split_chr sep s) = s"
proof (induction s)
  case Nil
  show ?case by simp
next
  case (Cons c cs)
  show ?case
  proof (cases "c = sep")
    case True
    with Cons show ?thesis by (simp add: join_Cons split_chr_not_Nil)
  next
    case False
    obtain p ps where ps: "split_chr sep cs = p # ps"
      using split_chr_not_Nil [of sep cs] by (cases "split_chr sep cs") auto
    with Cons have "join [sep] (p # ps) = cs" by simp
    then have "join [sep] ((c # p) # ps) = c # cs" by (cases ps) auto
    with False ps show ?thesis by simp
  qed
qed

lemma split_chr_no_sep: "p \<in> set (split_chr sep s) \<Longrightarrow> sep \<notin> set p"
proof (induction s arbitrary: p)
  case Nil
  then show ?case by simp
next
  case (Cons c cs)
  then show ?case
    by (cases "split_chr sep cs") (auto split: if_splits)
qed

lemma split_chr_subset: "p \<in> set (split_chr sep s) \<Longrightarrow> set p \<subseteq> set s"
proof (induction s arbitrary: p)
  case Nil
  then show ?case by simp
next
  case (Cons c cs)
  obtain q qs where q: "split_chr sep cs = q # qs"
    using split_chr_not_Nil [of sep cs] by (cases "split_chr sep cs") auto
  have ih: "\<And>r. r \<in> set (q # qs) \<Longrightarrow> set r \<subseteq> set cs"
    using Cons.IH q by simp
  have "set q \<subseteq> set cs" by (rule ih) simp
  moreover have "\<And>r. r \<in> set qs \<Longrightarrow> set r \<subseteq> set cs" by (rule ih) simp
  ultimately show ?case
    using Cons.prems q by (auto split: if_splits)
qed

lemma length_split_chr: "length (split_chr sep s) = Suc (count_list s sep)"
proof (induction s)
  case Nil
  show ?case by simp
next
  case (Cons c cs)
  then show ?case
    by (cases "split_chr sep cs") (auto split: if_splits)
qed

lemma normalise_map: "replace_chr CHR ''-'' CHR '':'' (upper s) = map norm_char s"
  by (simp add: replace_chr_def upper_def norm_char_def)

lemma upper_char_seps: "upper_char CHR ''-'' = CHR ''-''" "upper_char CHR '':'' = CHR '':''"
  by (simp_all add: upper_char_def ascii_lower_def ascii_upper_def)

lemma same_char_norm: "same_char a b \<Longrightarrow> norm_char a = norm_char b"
  by (auto simp: same_char_def norm_char_def upper_char_seps)

lemma seps_not_space: "\<not> is_space CHR ''-''" "\<not> is_space CHR '':''"
  by (simp_all add: is_space_def whitespace_def)

lemma same_char_space: "same_char a b \<Longrightarrow> is_space a = is_space b"
  unfolding same_char_def
  by (metis upper_char_space seps_not_space insertE singletonD)

lemma list_all2_dropWhile:
  assumes "list_all2 R xs ys" and "\<And>a b. R a b \<Longrightarrow> P a = P b"
  shows "list_all2 R (dropWhile P xs) (dropWhile P ys)"
  using assms(1)
proof (induction rule: list_all2_induct)
  case Nil
  show ?case by simp
next
  case (Cons x xs y ys)
  with assms(2) [of x y] show ?case by simp
qed

lemma same_address_strip:
  assumes "list_all2 same_char m1 m2"
  shows "list_all2 same_char (strip m1) (strip m2)"
proof -
  have "list_all2 same_char (dropWhile is_space m1) (dropWhile is_space m2)"
    using assms same_char_space by (rule list_all2_dropWhile)
  then have "list_all2 same_char (rev (dropWhile is_space m1)) (rev (dropWhile is_space m2))"
    by simp
  then have "list_all2 same_char (dropWhile is_space (rev (dropWhile is_space m1)))
       (dropWhile is_space (rev (dropWhile is_space m2)))"
    using same_char_space by (rule list_all2_dropWhile)
  then show ?thesis by (simp add: strip_def)
qed

lemma same_address_normalise:
  assumes "list_all2 same_char m1 m2"
  shows "map norm_char (strip m1) = map norm_char (strip m2)"
proof -
  have "list_all2 same_char (strip m1) (strip m2)"
    using assms by (rule same_address_strip)
  then show ?thesis
    by (induction rule: list_all2_induct) (simp_all add: same_char_norm)
qed

lemma upper_no_ascii_lower: "\<not> has_ascii_lower (upper s)"
  using upper_char_not_lower by (auto simp: has_ascii_lower_def upper_def)

lemma replace_chr_no_dash: "CHR ''-'' \<notin> set (replace_chr CHR ''-'' CHR '':'' s)"
  by (auto simp: replace_chr_def)

lemma replace_chr_no_ascii_lower:
  assumes "\<not> has_ascii_lower s"
  shows "\<not> has_ascii_lower (replace_chr CHR ''-'' CHR '':'' s)"
proof -
  have "CHR '':'' \<notin> set ascii_lower" by (simp add: ascii_lower_def)
  with assms show ?thesis
    unfolding has_ascii_lower_def replace_chr_def by auto
qed

lemma hex_digit_cases:
  assumes "hex_digit c"
  shows "c = CHR ''0'' \<or> c = CHR ''1'' \<or> c = CHR ''2'' \<or> c = CHR ''3'' \<or> c = CHR ''4''
      \<or> c = CHR ''5'' \<or> c = CHR ''6'' \<or> c = CHR ''7'' \<or> c = CHR ''8'' \<or> c = CHR ''9''
      \<or> c = CHR ''a'' \<or> c = CHR ''b'' \<or> c = CHR ''c'' \<or> c = CHR ''d'' \<or> c = CHR ''e''
      \<or> c = CHR ''f'' \<or> c = CHR ''A'' \<or> c = CHR ''B'' \<or> c = CHR ''C'' \<or> c = CHR ''D''
      \<or> c = CHR ''E'' \<or> c = CHR ''F''"
proof -
  from assms have "c \<in> set ''0123456789abcdefABCDEF''"
    by (simp only: hex_digit_def)
  then show ?thesis by simp
qed

lemma hex_digit_upper: "hex_digit c \<Longrightarrow> upper_char c \<in> set ''0123456789ABCDEF''"
  by (drule hex_digit_cases, elim disjE)
    (simp_all add: upper_char_def ascii_lower_def ascii_upper_def)

lemma hex_digit_not_space: "hex_digit c \<Longrightarrow> \<not> is_space c"
  by (drule hex_digit_cases, elim disjE) (simp_all add: is_space_def whitespace_def)

lemma is_hex_not_separator: "is_hex x \<Longrightarrow> x \<noteq> CHR '':'' \<and> x \<noteq> CHR ''-''"
  by (auto simp: is_hex_def)

lemma hex_digit_norm:
  assumes "hex_digit c"
  shows "norm_char c = upper_char c" "upper_char c \<noteq> CHR '':''" "is_hex (upper_char c)"
    "\<not> is_space c"
proof -
  show h: "is_hex (upper_char c)"
    using hex_digit_upper [OF assms] by (simp only: is_hex_def)
  from is_hex_not_separator [OF h] show "upper_char c \<noteq> CHR '':''" by simp
  from is_hex_not_separator [OF h] show "norm_char c = upper_char c" by (simp add: norm_char_def)
  show "\<not> is_space c" using assms by (rule hex_digit_not_space)
qed

lemma separator_norm: "separator c \<Longrightarrow> norm_char c = CHR '':''"
proof -
  assume "separator c"
  then have "c = CHR ''-'' \<or> c = CHR '':''" by (simp add: separator_def)
  then show ?thesis by (elim disjE) (simp_all add: norm_char_def upper_char_seps)
qed

lemma strip_padding:
  assumes "list_all is_space ws1" and "list_all is_space ws2"
    and "s \<noteq> []" and "\<not> is_space (hd s)" and "\<not> is_space (last s)"
  shows "strip (ws1 @ s @ ws2) = s"
proof -
  have a: "dropWhile is_space (ws1 @ s @ ws2) = s @ ws2"
  proof -
    have "dropWhile is_space (ws1 @ s @ ws2) = dropWhile is_space (s @ ws2)"
      using assms(1) by (simp add: list_all_iff dropWhile_append2)
    also have "\<dots> = s @ ws2"
      using assms(3,4) by (cases s) simp_all
    finally show ?thesis .
  qed
  have "dropWhile is_space (rev ws2 @ rev s) = dropWhile is_space (rev s)"
    using assms(2) by (intro dropWhile_append2) (simp add: list_all_iff)
  then have "dropWhile is_space (rev (s @ ws2)) = dropWhile is_space (rev s)"
    by simp
  also have "\<dots> = rev s"
    using assms(3,5) by (cases s rule: rev_cases) simp_all
  finally show ?thesis by (simp add: strip_def a)
qed

lemma octet_pair:
  assumes "octet g"
  obtains a b where "g = [a, b]" "hex_digit a" "hex_digit b"
  using assms by (auto simp: octet_def length_Suc_conv eval_nat_numeral)

lemma canonical_form_length_test:
  assumes "canonical_form mac"
  shows "length_test mac"
proof -
  from assms obtain g1 g2 g3 g4 g5 g6 where sp: "split_chr CHR '':'' mac = [g1, g2, g3, g4, g5, g6]"
    and len: "length g1 = 2" "length g2 = 2" "length g3 = 2" "length g4 = 2" "length g5 = 2"
      "length g6 = 2"
    by (auto simp: canonical_form_def Let_def length_Suc_conv eval_nat_numeral)
  have "Suc (count_list mac CHR '':'') = 6"
    using length_split_chr [of "CHR '':''" mac] by (simp add: sp)
  then have cnt: "count_list mac CHR '':'' = 5" by simp
  have "join '':'' (split_chr CHR '':'' mac) = mac" by (rule join_split)
  then have "mac = g1 @ '':'' @ g2 @ '':'' @ g3 @ '':'' @ g4 @ '':'' @ g5 @ '':'' @ g6"
    by (simp add: sp)
  then have "length mac = 17" by (simp add: len)
  with cnt show ?thesis by (simp add: length_test_def)
qed

lemma mac_to_oui_empty_iff:
  "mac_to_oui mac = [] \<longleftrightarrow>
     \<not> length_test (replace_chr CHR ''-'' CHR '':'' (upper (strip mac)))"
proof -
  define m where "m = replace_chr CHR ''-'' CHR '':'' (upper (strip mac))"
  have "join '':'' (take 3 (split_chr CHR '':'' m)) \<noteq> []" if "count_list m CHR '':'' = 5"
  proof -
    have "length (split_chr CHR '':'' m) = 6"
      using that by (simp add: length_split_chr)
    then obtain a b c d e f where "split_chr CHR '':'' m = [a, b, c, d, e, f]"
      by (auto simp: length_Suc_conv eval_nat_numeral)
    then show ?thesis by simp
  qed
  then show ?thesis
    by (auto simp: mac_to_oui_def length_test_def Let_def simp flip: m_def)
qed

subsection \<open>Prefix extraction\<close>

text \<open>
  C5. Take a hardware address written as six octets, each two hexadecimal
  digits in either letter case, with a separator between neighbours, each
  separator \<open>-\<close> or \<open>:\<close> independently of the others, and with any whitespace
  before and after it. \<open>mac_to_oui\<close> returns the first three octets,
  upper-cased and joined by colons: three groups of two upper-case hexadecimal
  digits. The result is a function of the address alone, and every other
  spelling of the address, differing from it character by character at most in
  letter case or in the separator used, gives the same prefix.
\<close>

theorem mac_to_oui_canonical:
  assumes "list_all octet [g1, g2, g3, g4, g5, g6]"
    and "list_all separator [s1, s2, s3, s4, s5]"
    and "list_all is_space ws1" and "list_all is_space ws2"
  shows "mac_to_oui (ws1 @ g1 @ [s1] @ g2 @ [s2] @ g3 @ [s3] @ g4 @ [s4] @ g5 @ [s5] @ g6 @ ws2)
           = upper g1 @ '':'' @ upper g2 @ '':'' @ upper g3
         \<and> hex_groups (upper g1 @ '':'' @ upper g2 @ '':'' @ upper g3)
         \<and> (\<forall>mac'. same_address (g1 @ [s1] @ g2 @ [s2] @ g3 @ [s3] @ g4 @ [s4] @ g5 @ [s5] @ g6) mac'
               \<longrightarrow> mac_to_oui mac' = upper g1 @ '':'' @ upper g2 @ '':'' @ upper g3)"
proof -
  from assms(1) obtain a1 b1 a2 b2 a3 b3 a4 b4 a5 b5 a6 b6 where
    g: "g1 = [a1, b1]" "g2 = [a2, b2]" "g3 = [a3, b3]" "g4 = [a4, b4]" "g5 = [a5, b5]" "g6 = [a6, b6]"
    and h: "hex_digit a1" "hex_digit b1" "hex_digit a2" "hex_digit b2" "hex_digit a3" "hex_digit b3"
      "hex_digit a4" "hex_digit b4" "hex_digit a5" "hex_digit b5" "hex_digit a6" "hex_digit b6"
    by (auto elim!: octet_pair)
  from assms(2) have s: "separator s1" "separator s2" "separator s3" "separator s4" "separator s5"
    by simp_all
  let ?core = "[a1, b1, s1, a2, b2, s2, a3, b3, s3, a4, b4, s4, a5, b5, s5, a6, b6]"
  let ?res = "[upper_char a1, upper_char b1, CHR '':'', upper_char a2, upper_char b2, CHR '':'',
      upper_char a3, upper_char b3]"
  have norm: "map norm_char ?core =
      [upper_char a1, upper_char b1, CHR '':'', upper_char a2, upper_char b2, CHR '':'',
       upper_char a3, upper_char b3, CHR '':'', upper_char a4, upper_char b4, CHR '':'',
       upper_char a5, upper_char b5, CHR '':'', upper_char a6, upper_char b6]"
    by (simp add: hex_digit_norm(1) h separator_norm s)
  have sc: "strip ?core = ?core"
    using strip_padding [of "[]" "[]" ?core] hex_digit_norm(4) [OF h(1)] hex_digit_norm(4) [OF h(12)]
    by simp
  have n: "replace_chr CHR ''-'' CHR '':'' (upper (strip ?core)) = map norm_char ?core"
    by (simp only: normalise_map sc)
  have bare: "mac_to_oui ?core = ?res"
    unfolding mac_to_oui_def n norm
    by (simp add: Let_def hex_digit_norm(2) h)
  have "strip (ws1 @ ?core @ ws2) = ?core"
    using assms(3,4) hex_digit_norm(4) [OF h(1)] hex_digit_norm(4) [OF h(12)]
    by (intro strip_padding) simp_all
  with sc have "mac_to_oui (ws1 @ ?core @ ws2) = mac_to_oui ?core"
    by (simp add: mac_to_oui_def)
  with bare have one: "mac_to_oui (ws1 @ ?core @ ws2) = ?res" by simp
  have two: "hex_groups ?res"
    by (simp add: hex_groups_def Let_def hex_digit_norm(2,3) h)
  have three: "mac_to_oui mac' = ?res" if "same_address ?core mac'" for mac'
  proof -
    have "map norm_char (strip ?core) = map norm_char (strip mac')"
      using that unfolding same_address_def by (rule same_address_normalise)
    then have "mac_to_oui mac' = mac_to_oui ?core" by (simp add: mac_to_oui_def normalise_map)
    with bare show ?thesis by simp
  qed
  from one two three show ?thesis
    by (simp add: g upper_def)
qed

theorem mac_to_oui_canonical_witness:
  "mac_to_oui '' aa-bb:cc-dd-ee-ff'' = ''AA:BB:CC''
   \<and> hex_groups ''AA:BB:CC''
   \<and> mac_to_oui ''AA:BB:CC:DD:EE:FF'' = ''AA:BB:CC''
   \<and> mac_to_oui ''Aa-bB-Cc-dd-ee-ff'' = ''AA:BB:CC''"
proof -
  have o: "list_all octet [''aa'', ''bb'', ''cc'', ''dd'', ''ee'', ''ff'']"
    by (simp add: octet_def hex_digit_def)
  have s: "list_all separator [CHR ''-'', CHR '':'', CHR ''-'', CHR ''-'', CHR ''-'']"
    by (simp add: separator_def)
  have w: "list_all is_space '' ''" "list_all is_space []"
    by (simp_all add: is_space_def whitespace_def)
  have sa: "same_address ''aa-bb:cc-dd-ee-ff'' ''AA:BB:CC:DD:EE:FF''"
    "same_address ''aa-bb:cc-dd-ee-ff'' ''Aa-bB-Cc-dd-ee-ff''"
    by (simp_all add: same_address_def same_char_def upper_char_def ascii_lower_def ascii_upper_def)
  have u: "upper ''aa'' = ''AA''" "upper ''bb'' = ''BB''" "upper ''cc'' = ''CC''"
    by (simp_all add: upper_def upper_char_def ascii_lower_def ascii_upper_def)
  from mac_to_oui_canonical [OF o s w]
  have "mac_to_oui '' aa-bb:cc-dd-ee-ff'' = ''AA:BB:CC''
      \<and> hex_groups ''AA:BB:CC''
      \<and> (\<forall>mac'. same_address ''aa-bb:cc-dd-ee-ff'' mac' \<longrightarrow> mac_to_oui mac' = ''AA:BB:CC'')"
    by (simp add: u)
  with sa show ?thesis by blast
qed

subsection \<open>De-duplication\<close>

text \<open>
  C1. \<open>should_emit\<close> answers yes exactly when the current time minus the last
  emission time of the key (0 for a key never emitted) is at least the
  suppression window. On yes the key's time becomes the current time, on no the
  state is unchanged. Hence, after an emission at time \<open>t\<close>, a repeat of the key
  at time \<open>t'\<close> is emitted exactly when \<open>t' - t\<close> reaches the window; and with
  window 0 a sighting is emitted whenever the clock has not gone back behind
  the key's last emission.
\<close>

theorem should_emit_dedup:
  "(fst (should_emit w le k t) \<longleftrightarrow> t - last_time le k \<ge> of_int w)
   \<and> (fst (should_emit w le k t) \<longrightarrow> snd (should_emit w le k t) = le(k \<mapsto> t))
   \<and> (\<not> fst (should_emit w le k t) \<longrightarrow> snd (should_emit w le k t) = le)
   \<and> (fst (should_emit w le k t) \<longrightarrow>
        (\<forall>t'. fst (should_emit w (snd (should_emit w le k t)) k t') \<longleftrightarrow> t' - t \<ge> of_int w))
   \<and> (last_time le k \<le> t \<longrightarrow> fst (should_emit 0 le k t))"
  by (simp add: should_emit_def last_time_def Let_def)

theorem should_emit_dedup_witness:
  "fst (should_emit 120 Map.empty (OUI_MATCH, ''AA:BB:CC'', ''Generic'') 1000)
   \<and> snd (should_emit 120 Map.empty (OUI_MATCH, ''AA:BB:CC'', ''Generic'') 1000)
       = [(OUI_MATCH, ''AA:BB:CC'', ''Generic'') \<mapsto> 1000]
   \<and> \<not> fst (should_emit 120 [(OUI_MATCH, ''AA:BB:CC'', ''Generic'') \<mapsto> 1000]
              (OUI_MATCH, ''AA:BB:CC'', ''Generic'') 1060)
   \<and> snd (should_emit 120 [(OUI_MATCH, ''AA:BB:CC'', ''Generic'') \<mapsto> 1000]
              (OUI_MATCH, ''AA:BB:CC'', ''Generic'') 1060)
       = [(OUI_MATCH, ''AA:BB:CC'', ''Generic'') \<mapsto> 1000]
   \<and> fst (should_emit 120 [(OUI_MATCH, ''AA:BB:CC'', ''Generic'') \<mapsto> 1000]
              (OUI_MATCH, ''AA:BB:CC'', ''Generic'') 1120)
   \<and> fst (should_emit 0 [(OUI_MATCH, ''AA:BB:CC'', ''Generic'') \<mapsto> 1000]
              (OUI_MATCH, ''AA:BB:CC'', ''Generic'') 1000)"
proof -
  let ?k = "(OUI_MATCH, ''AA:BB:CC'', ''Generic'')"
  have a: "last_time Map.empty ?k = 0" "last_time [?k \<mapsto> 1000] ?k = 1000"
    by (simp_all add: last_time_def)
  show ?thesis
    using should_emit_dedup [of 120 Map.empty ?k 1000]
      should_emit_dedup [of 120 "[?k \<mapsto> 1000]" ?k 1060]
      should_emit_dedup [of 120 "[?k \<mapsto> 1000]" ?k 1120]
      should_emit_dedup [of 0 "[?k \<mapsto> 1000]" ?k 1000]
    by (simp add: a)
qed

subsection \<open>Loading the vendor prefixes\<close>

lemma two_char_groups_explicit:
  assumes "two_char_groups s"
  shows "\<exists>a b c d e f. s = [a, b, CHR '':'', c, d, CHR '':'', e, f]
           \<and> CHR '':'' \<notin> {a, b, c, d, e, f}"
proof -
  from assms obtain g1 g2 g3 where sp: "split_chr CHR '':'' s = [g1, g2, g3]"
    and len: "length g1 = 2" "length g2 = 2" "length g3 = 2"
    by (auto simp: two_char_groups_def Let_def length_Suc_conv eval_nat_numeral)
  from len obtain a b c d e f where g: "g1 = [a, b]" "g2 = [c, d]" "g3 = [e, f]"
    by (auto simp: length_Suc_conv eval_nat_numeral)
  have "join '':'' (split_chr CHR '':'' s) = s" by (rule join_split)
  then have s: "s = [a, b, CHR '':'', c, d, CHR '':'', e, f]"
    by (simp add: sp g)
  have "CHR '':'' \<notin> set g1" "CHR '':'' \<notin> set g2" "CHR '':'' \<notin> set g3"
    using split_chr_no_sep [of _ "CHR '':''" s] by (simp_all add: sp)
  then have "CHR '':'' \<notin> {a, b, c, d, e, f}" by (auto simp: g)
  with s show ?thesis by blast
qed

lemma add_row_member:
  assumes "s \<in> add_row row ouis"
  shows "s \<in> ouis \<or> (two_char_groups s \<and> \<not> has_ascii_lower s \<and> CHR ''-'' \<notin> set s)"
proof -
  define oui where "oui = replace_chr CHR ''-'' CHR '':'' (upper (strip (row_get row ''oui'')))"
  have j: "join '':'' (split_chr CHR '':'' oui) = oui" by (rule join_split)
  have chars: "\<not> has_ascii_lower oui \<and> CHR ''-'' \<notin> set oui"
    unfolding oui_def
    using upper_no_ascii_lower replace_chr_no_ascii_lower replace_chr_no_dash by blast
  from assms have "s \<in> ouis \<or> (s = oui \<and> two_char_groups oui)"
    by (auto simp: add_row_def Let_def two_char_groups_def j
        simp flip: oui_def split: if_splits)
  with chars show ?thesis by auto
qed

lemma fold_add_row_member:
  assumes "s \<in> fold add_row rows ouis"
  shows "s \<in> ouis \<or> (two_char_groups s \<and> \<not> has_ascii_lower s \<and> CHR ''-'' \<notin> set s)"
  using assms
proof (induction rows arbitrary: ouis)
  case Nil
  then show ?case by simp
next
  case (Cons row rows)
  from Cons.prems have "s \<in> fold add_row rows (add_row row ouis)" by simp
  then have "s \<in> add_row row ouis \<or> (two_char_groups s \<and> \<not> has_ascii_lower s \<and> CHR ''-'' \<notin> set s)"
    by (rule Cons.IH)
  then show ?case using add_row_member by blast
qed

lemma load_sources_member:
  assumes "load_sources data_dir names ouis = Inr res" and "s \<in> res"
  shows "s \<in> ouis \<or> (two_char_groups s \<and> \<not> has_ascii_lower s \<and> CHR ''-'' \<notin> set s)"
  using assms
proof (induction names arbitrary: ouis)
  case Nil
  then show ?case by simp
next
  case (Cons name names)
  show ?case
  proof (cases "data_dir name")
    case None
    with Cons.prems have "load_sources data_dir names ouis = Inr res" by simp
    then show ?thesis using Cons.prems(2) by (rule Cons.IH)
  next
    case (Some df)
    show ?thesis
    proof (cases df)
      case (Unreadable e)
      with Some Cons.prems show ?thesis by simp
    next
      case (Rows rows)
      with Some Cons.prems
      have "load_sources data_dir names (fold add_row rows ouis) = Inr res" by simp
      then have "s \<in> fold add_row rows ouis
          \<or> (two_char_groups s \<and> \<not> has_ascii_lower s \<and> CHR ''-'' \<notin> set s)"
        using Cons.prems(2) by (rule Cons.IH)
      then show ?thesis using fold_add_row_member by blast
    qed
  qed
qed

text \<open>
  C3, as the code has it. Every member of the set \<open>load_ouis\<close> returns is three
  groups of exactly two characters joined by colons (eight characters, a colon
  at the third and sixth place and nowhere else), with no dash and none of the
  ASCII lower-case letters \<open>a\<close> to \<open>z\<close>. The loader checks the lengths of the
  groups only, so the characters need not be hexadecimal digits. Of \<open>upper\<close>
  the proof uses only that its result holds no letter from \<open>a\<close> to \<open>z\<close>, and
  of \<open>strip\<close> nothing.
\<close>

theorem load_ouis_members:
  assumes "load_ouis data_dir include_modules = Inr ouis" and "s \<in> ouis"
  shows "two_char_groups s \<and> \<not> has_ascii_lower s \<and> CHR ''-'' \<notin> set s
         \<and> (\<exists>a b c d e f. s = [a, b, CHR '':'', c, d, CHR '':'', e, f]
               \<and> CHR '':'' \<notin> {a, b, c, d, e, f})"
proof -
  have "s \<in> {} \<or> (two_char_groups s \<and> \<not> has_ascii_lower s \<and> CHR ''-'' \<notin> set s)"
    using assms unfolding load_ouis_def by (rule load_sources_member)
  then show ?thesis using two_char_groups_explicit by blast
qed

theorem load_ouis_members_witness:
  "load_ouis [''oui_drones.csv'' \<mapsto> Rows [[''oui'' \<mapsto> '' 60-60-1f''], [''oui'' \<mapsto> ''60:60:1'']]] True
     = Inr {''60:60:1F''}
   \<and> two_char_groups ''60:60:1F'' \<and> \<not> has_ascii_lower ''60:60:1F''"
proof -
  have v: "load_ouis [''oui_drones.csv'' \<mapsto> Rows [[''oui'' \<mapsto> '' 60-60-1f''], [''oui'' \<mapsto> ''60:60:1'']]] True
     = Inr {''60:60:1F''}"
    by (simp add: load_ouis_def oui_sources_def add_row_def row_get_def strip_def is_space_def
        whitespace_def upper_def upper_char_def ascii_lower_def ascii_upper_def replace_chr_def)
  show ?thesis
    using load_ouis_members [OF v, of "''60:60:1F''"] v by simp
qed

text \<open>
  C3, as the specification states it (members are hexadecimal groups), fails: a
  row whose \<open>oui\<close> column is \<open>zz-zz-zz\<close> puts \<open>ZZ:ZZ:ZZ\<close> into the set.
\<close>

theorem load_ouis_hex_counterexample:
  "load_ouis [''oui_drones.csv'' \<mapsto> Rows [[''oui'' \<mapsto> ''zz-zz-zz'']]] False = Inr {''ZZ:ZZ:ZZ''}
   \<and> \<not> hex_groups ''ZZ:ZZ:ZZ''"
  by (simp add: load_ouis_def oui_sources_def add_row_def row_get_def strip_def is_space_def
      whitespace_def upper_def upper_char_def ascii_lower_def ascii_upper_def replace_chr_def
      hex_groups_def is_hex_def)

subsection \<open>Parsing a snapshot\<close>

lemma is_header_Cons: "is_header (f # fs) = startswith (upper (strip f)) ''BSSID''"
  by (simp add: is_header_def)

lemma scan_rows_in_table:
  "scan_rows True (map Row rows) aps =
     Inr (aps @ map make_ap (filter (\<lambda>r. \<not> is_header r \<and> 14 \<le> length r)
                               (takeWhile (\<lambda>r. r \<noteq> []) rows)))"
proof (induction rows arbitrary: aps)
  case Nil
  show ?case by simp
next
  case (Cons row rows)
  show ?case
  proof (cases row)
    case Nil
    then show ?thesis by simp
  next
    case (Cons f fs)
    then show ?thesis
      using Cons.IH by (simp add: is_header_Cons not_less)
  qed
qed

lemma scan_rows_before_table:
  "scan_rows False (map Row rows) aps = Inr (aps @ ap_table rows)"
proof (induction rows)
  case Nil
  show ?case by (simp add: ap_table_def)
next
  case (Cons row rows)
  show ?case
  proof (cases row)
    case Nil
    with Cons.IH show ?thesis by (simp add: ap_table_def is_header_def)
  next
    case row: (Cons f fs)
    show ?thesis
    proof (cases "is_header row")
      case True
      then show ?thesis
        by (simp add: row is_header_Cons scan_rows_in_table ap_table_def)
    next
      case False
      with Cons.IH show ?thesis
        by (simp add: row is_header_Cons ap_table_def)
    qed
  qed
qed

text \<open>
  C4, as the code has it. For a file that is read without error, the records
  returned are those of \<open>ap_table\<close>: the rows before the first header row are
  skipped, a header row being one whose first field, stripped and upper-cased,
  starts with \<open>BSSID\<close>; after it the rows up to the first blank row are the
  table; in the table, header rows and rows with fewer than 14 columns are
  skipped, and every other row gives a record whose address, first-seen,
  last-seen, channel, power and name are the stripped fields at positions 1, 2,
  3, 4, 9 and 14 (the address upper-cased as well). Once inside the table a
  blank row ends the parse with the records read so far, whatever follows it.
\<close>

theorem parse_airodump_csv_table:
  assumes "fs path = Opened (map Row rows)"
  shows "parse_airodump_csv fs path = Inr (ap_table rows)
         \<and> scan_rows True (Row [] # rest) aps = Inr aps
         \<and> bssid (make_ap row) = upper (strip (row ! 0))
         \<and> first_seen (make_ap row) = strip (row ! 1)
         \<and> last_seen (make_ap row) = strip (row ! 2)
         \<and> channel (make_ap row) = strip (row ! 3)
         \<and> power (make_ap row) = strip (row ! 8)
         \<and> essid (make_ap row) = strip (row ! 13)"
  using assms
  by (simp add: parse_airodump_csv_def scan_rows_before_table make_ap_def)

theorem parse_airodump_csv_table_witness:
  "parse_airodump_csv
     (\<lambda>p. Opened (map Row
        [[''junk''],
         [],
         ['' bssid'', '' First time seen''],
         [''aa:bb:cc:11:22:33'', '' t1'', '' t2'', '' 6'', '' 54'', '' WPA2'', '' CCMP'',
          '' PSK'', '' -40'', '' 10'', '' 0'', '' 0.0.0.0'', '' 7'', '' Generic'', '' ''],
         [''aa:bb:cc:11:22:44'', '' t1'', '' t2''],
         [],
         [''Station MAC'', '' First time seen''],
         [''11:22:33:44:55:66'', '' t1'', '' t2'', '' 6'', '' 54'', '' WPA2'', '' CCMP'',
          '' PSK'', '' -40'', '' 10'', '' 0'', '' 0.0.0.0'', '' 7'', '' Other'', '' '']]))
     ''scan-01.csv''
   = Inr [\<lparr> bssid = ''AA:BB:CC:11:22:33'', essid = ''Generic'', channel = ''6'',
            power = ''-40'', first_seen = ''t1'', last_seen = ''t2'' \<rparr>]"
proof -
  let ?rows = "[[''junk''],
         [],
         ['' bssid'', '' First time seen''],
         [''aa:bb:cc:11:22:33'', '' t1'', '' t2'', '' 6'', '' 54'', '' WPA2'', '' CCMP'',
          '' PSK'', '' -40'', '' 10'', '' 0'', '' 0.0.0.0'', '' 7'', '' Generic'', '' ''],
         [''aa:bb:cc:11:22:44'', '' t1'', '' t2''],
         [],
         [''Station MAC'', '' First time seen''],
         [''11:22:33:44:55:66'', '' t1'', '' t2'', '' 6'', '' 54'', '' WPA2'', '' CCMP'',
          '' PSK'', '' -40'', '' 10'', '' 0'', '' 0.0.0.0'', '' 7'', '' Other'', '' '']]"
  have "(\<lambda>p::string. Opened (map Row ?rows)) ''scan-01.csv'' = Opened (map Row ?rows)"
    by simp
  from parse_airodump_csv_table [of "\<lambda>p. Opened (map Row ?rows)", OF this]
  have "parse_airodump_csv (\<lambda>p. Opened (map Row ?rows)) ''scan-01.csv'' = Inr (ap_table ?rows)"
    by blast
  moreover have "ap_table ?rows =
      [\<lparr> bssid = ''AA:BB:CC:11:22:33'', essid = ''Generic'', channel = ''6'',
            power = ''-40'', first_seen = ''t1'', last_seen = ''t2'' \<rparr>]"
    by (simp add: ap_table_def is_header_def startswith_def make_ap_def strip_def is_space_def
        whitespace_def upper_def upper_char_def ascii_lower_def ascii_upper_def)
  ultimately show ?thesis by simp
qed

text \<open>
  C4, as the specification states it (the header row is one whose first field
  equals the marker, case-insensitively), fails: a first field \<open>BSSIDX\<close> does
  not equal the marker, yet the code takes the row for the header and parses
  the row after it.
\<close>

theorem parse_airodump_csv_marker_counterexample:
  "\<not> marker_equal [''BSSIDX'']
   \<and> ap_table_as_specified
        [[''BSSIDX''],
         [''aa:bb:cc:11:22:33'', '' t1'', '' t2'', '' 6'', '' 54'', '' WPA2'', '' CCMP'',
          '' PSK'', '' -40'', '' 10'', '' 0'', '' 0.0.0.0'', '' 7'', '' Generic'', '' '']] = []
   \<and> parse_airodump_csv
        (\<lambda>p. Opened (map Row
          [[''BSSIDX''],
           [''aa:bb:cc:11:22:33'', '' t1'', '' t2'', '' 6'', '' 54'', '' WPA2'', '' CCMP'',
            '' PSK'', '' -40'', '' 10'', '' 0'', '' 0.0.0.0'', '' 7'', '' Generic'', '' '']]))
        ''scan-01.csv''
      = Inr [\<lparr> bssid = ''AA:BB:CC:11:22:33'', essid = ''Generic'', channel = ''6'',
               power = ''-40'', first_seen = ''t1'', last_seen = ''t2'' \<rparr>]"
  by (simp add: parse_airodump_csv_def ap_table_as_specified_def marker_equal_def
      startswith_def make_ap_def strip_def is_space_def whitespace_def upper_def upper_char_def
      ascii_lower_def ascii_upper_def)

text \<open>
  C7. When \<open>open\<close> raises \<open>FileNotFoundError\<close> for the path,
  \<open>parse_airodump_csv\<close> returns the empty list and raises nothing.
\<close>

theorem parse_airodump_csv_missing_file:
  assumes "fs path = OpenRaises FileNotFoundError"
  shows "parse_airodump_csv fs path = Inr []"
  using assms by (simp add: parse_airodump_csv_def)

theorem parse_airodump_csv_missing_file_witness:
  "parse_airodump_csv (\<lambda>p. if p = ''scan-01.csv'' then Opened [] else OpenRaises FileNotFoundError)
     ''scan-02.csv'' = Inr []"
proof -
  have "(\<lambda>p. if p = ''scan-01.csv'' then Opened [] else OpenRaises FileNotFoundError)
          ''scan-02.csv'' = OpenRaises FileNotFoundError"
    by simp
  then show ?thesis by (rule parse_airodump_csv_missing_file)
qed

subsection \<open>The capture process\<close>

lemma digit_char_digit: "d < 10 \<Longrightarrow> digit_char d \<in> set ''0123456789''"
proof -
  assume "d < 10"
  then have "d < length ''0123456789''" by simp
  then show ?thesis unfolding digit_char_def by (rule nth_mem)
qed

lemma str_nat_digits: "str_nat n \<noteq> [] \<and> set (str_nat n) \<subseteq> set ''0123456789''"
proof (induction n rule: str_nat.induct)
  case (1 n)
  show ?case
  proof (cases "n < 10")
    case True
    then have "str_nat n = [digit_char n]" by (subst str_nat.simps) simp
    with True digit_char_digit [of n] show ?thesis by simp
  next
    case False
    then have eq: "str_nat n = str_nat (n div 10) @ [digit_char (n mod 10)]"
      by (subst str_nat.simps) simp
    have "digit_char (n mod 10) \<in> set ''0123456789''"
      by (rule digit_char_digit) simp
    with "1.IH" False show ?thesis unfolding eq by simp
  qed
qed

lemma str_int_not_flag: "''--channel'' \<noteq> str_int i" "''--band'' \<noteq> str_int i"
proof -
  obtain d ds where ds: "str_nat (nat \<bar>i\<bar>) = d # ds" and d: "d \<in> set ''0123456789''"
    using str_nat_digits [of "nat \<bar>i\<bar>"] by (cases "str_nat (nat \<bar>i\<bar>)") auto
  from d have "d \<noteq> CHR ''-''" by auto
  then show "''--channel'' \<noteq> str_int i" "''--band'' \<noteq> str_int i"
    using ds by (auto simp: str_int_def abs_if split: if_splits)
qed

text \<open>
  C8. The argument list \<open>start\<close> builds is the eight leading arguments followed
  by \<open>--channel\<close> and the channel list when one is configured, else by
  \<open>--band\<close> and the band when one is configured, else by nothing; this is the
  list \<open>start\<close> hands to the process and returns. So the list never carries both
  flags: when none of the configured strings is itself spelled like a flag,
  \<open>--channel\<close> and \<open>--band\<close> are not both members, a configured channel list
  gives \<open>--channel\<close> and no \<open>--band\<close>, and a band alone gives \<open>--band\<close>.
\<close>

theorem start_cmd_channel_plan:
  "(truthy (channels r) \<longrightarrow> start_cmd r = base_cmd r @ [''--channel'', str_of (channels r)])
   \<and> (\<not> truthy (channels r) \<and> truthy (band r) \<longrightarrow>
         start_cmd r = base_cmd r @ [''--band'', str_of (band r)])
   \<and> (\<not> truthy (channels r) \<and> \<not> truthy (band r) \<longrightarrow> start_cmd r = base_cmd r)
   \<and> length (base_cmd r) = 8
   \<and> (start spawn r = Inr (r', cmd) \<longrightarrow> cmd = start_cmd r \<and> spawn cmd \<noteq> Inl e)
   \<and> (flag_free r \<longrightarrow>
         \<not> (''--channel'' \<in> set (start_cmd r) \<and> ''--band'' \<in> set (start_cmd r))
         \<and> (truthy (channels r) \<longrightarrow>
               ''--channel'' \<in> set (start_cmd r) \<and> ''--band'' \<notin> set (start_cmd r))
         \<and> (\<not> truthy (channels r) \<and> truthy (band r) \<longrightarrow> ''--band'' \<in> set (start_cmd r)))"
proof -
  have plan: "(truthy (channels r) \<longrightarrow> start_cmd r = base_cmd r @ [''--channel'', str_of (channels r)])
   \<and> (\<not> truthy (channels r) \<and> truthy (band r) \<longrightarrow>
         start_cmd r = base_cmd r @ [''--band'', str_of (band r)])
   \<and> (\<not> truthy (channels r) \<and> \<not> truthy (band r) \<longrightarrow> start_cmd r = base_cmd r)"
    by (simp add: start_cmd_def)
  have len: "length (base_cmd r) = 8"
    by (simp add: base_cmd_def)
  have ret: "start spawn r = Inr (r', cmd) \<longrightarrow> cmd = start_cmd r \<and> spawn cmd \<noteq> Inl e"
    by (auto simp: start_def Let_def split: sum.splits)
  have base: "''--channel'' \<notin> set (base_cmd r) \<and> ''--band'' \<notin> set (base_cmd r)" if "flag_free r"
    using that str_int_not_flag [of "write_interval r"]
    by (simp add: base_cmd_def flag_free_def)
  have mem: "\<not> (''--channel'' \<in> set (start_cmd r) \<and> ''--band'' \<in> set (start_cmd r))
         \<and> (truthy (channels r) \<longrightarrow>
               ''--channel'' \<in> set (start_cmd r) \<and> ''--band'' \<notin> set (start_cmd r))
         \<and> (\<not> truthy (channels r) \<and> truthy (band r) \<longrightarrow> ''--band'' \<in> set (start_cmd r))"
    if ff: "flag_free r"
  proof -
    from ff have "''--band'' \<noteq> str_of (channels r)" "''--channel'' \<noteq> str_of (band r)"
      by (simp_all add: flag_free_def)
    with base [OF ff] show ?thesis
      by (simp add: start_cmd_def)
  qed
  from plan len ret mem show ?thesis by blast
qed

theorem start_cmd_channel_plan_witness:
  "start_cmd \<lparr> iface = ''wlan0mon'', prefix = ''/tmp/scan'', band = Some ''bg'',
               channels = Some ''1,6,11'', write_interval = 2,
               airodump_bin = ''airodump-ng'', proc = None \<rparr>
     = [''airodump-ng'', ''wlan0mon'', ''--output-format'', ''csv'', ''--write'', ''/tmp/scan'',
        ''--write-interval'', ''2'', ''--channel'', ''1,6,11'']
   \<and> start_cmd \<lparr> iface = ''wlan0mon'', prefix = ''/tmp/scan'', band = Some ''bg'',
               channels = None, write_interval = 2,
               airodump_bin = ''airodump-ng'', proc = None \<rparr>
     = [''airodump-ng'', ''wlan0mon'', ''--output-format'', ''csv'', ''--write'', ''/tmp/scan'',
        ''--write-interval'', ''2'', ''--band'', ''bg'']
   \<and> start_cmd \<lparr> iface = ''wlan0mon'', prefix = ''/tmp/scan'', band = None,
               channels = Some [], write_interval = 2,
               airodump_bin = ''airodump-ng'', proc = None \<rparr>
     = [''airodump-ng'', ''wlan0mon'', ''--output-format'', ''csv'', ''--write'', ''/tmp/scan'',
        ''--write-interval'', ''2'']
   \<and> flag_free \<lparr> iface = ''wlan0mon'', prefix = ''/tmp/scan'', band = Some ''bg'',
               channels = Some ''1,6,11'', write_interval = 2,
               airodump_bin = ''airodump-ng'', proc = None \<rparr>
   \<and> ''--band'' \<notin> set (start_cmd \<lparr> iface = ''wlan0mon'', prefix = ''/tmp/scan'', band = Some ''bg'',
               channels = Some ''1,6,11'', write_interval = 2,
               airodump_bin = ''airodump-ng'', proc = None \<rparr>)
   \<and> start (\<lambda>cmd. Inr \<lparr> status = Running, signals = [] \<rparr>)
        \<lparr> iface = ''wlan0mon'', prefix = ''/tmp/scan'', band = Some ''bg'',
          channels = None, write_interval = 2, airodump_bin = ''airodump-ng'', proc = None \<rparr>
     = Inr (\<lparr> iface = ''wlan0mon'', prefix = ''/tmp/scan'', band = Some ''bg'',
              channels = None, write_interval = 2, airodump_bin = ''airodump-ng'',
              proc = Some \<lparr> status = Running, signals = [] \<rparr> \<rparr>,
            [''airodump-ng'', ''wlan0mon'', ''--output-format'', ''csv'', ''--write'', ''/tmp/scan'',
             ''--write-interval'', ''2'', ''--band'', ''bg''])"
proof -
  let ?both = "\<lparr> iface = ''wlan0mon'', prefix = ''/tmp/scan'', band = Some ''bg'',
               channels = Some ''1,6,11'', write_interval = 2,
               airodump_bin = ''airodump-ng'', proc = None \<rparr>"
  let ?band = "\<lparr> iface = ''wlan0mon'', prefix = ''/tmp/scan'', band = Some ''bg'',
               channels = None, write_interval = 2,
               airodump_bin = ''airodump-ng'', proc = None \<rparr>"
  let ?none = "\<lparr> iface = ''wlan0mon'', prefix = ''/tmp/scan'', band = None,
               channels = Some [], write_interval = 2,
               airodump_bin = ''airodump-ng'', proc = None \<rparr>"
  have two: "str_int 2 = ''2''"
    by (simp add: str_int_def str_nat.simps [of 2] digit_char_def)
  have t: "truthy (channels ?both)" "\<not> truthy (channels ?band)" "truthy (band ?band)"
    "\<not> truthy (channels ?none)" "\<not> truthy (band ?none)"
    by (simp_all add: truthy_def)
  have ff: "flag_free ?both"
    by (simp add: flag_free_def str_of_def)
  have st: "start (\<lambda>cmd. Inr \<lparr> status = Running, signals = [] \<rparr>) ?band
     = Inr (?band\<lparr>proc := Some \<lparr> status = Running, signals = [] \<rparr>\<rparr>, start_cmd ?band)"
    by (simp add: start_def Let_def)
  show ?thesis
    using start_cmd_channel_plan [of ?both] start_cmd_channel_plan [of ?band]
      start_cmd_channel_plan [of ?none] t ff st
    by (simp add: base_cmd_def two str_of_def)
qed

lemma stop_no_exn: "fst (stop env r) = None"
  by (simp add: stop_def split: option.splits prod.splits)

lemma stop_idle:
  assumes "proc r = None \<or> (\<exists>p rc. proc r = Some p \<and> status p = Exited rc)"
  shows "stop env r = (None, r)"
  using assms by (auto simp: stop_def)

lemma stop_all_no_exn: "fst (stop_all envs r) = None"
proof (induction envs arbitrary: r)
  case Nil
  show ?case by simp
next
  case (Cons env envs)
  obtain r' where "stop env r = (None, r')"
    using stop_no_exn [of env r] by (cases "stop env r") auto
  with Cons.IH show ?case by simp
qed

lemma stop_all_idle:
  assumes "proc r = None \<or> (\<exists>p rc. proc r = Some p \<and> status p = Exited rc)"
  shows "stop_all envs r = (None, r)"
  using assms by (induction envs) (simp_all add: stop_idle)

text \<open>
  C9. \<open>stop\<close> never lets an exception out, whatever \<open>terminate\<close>, \<open>wait\<close> and
  \<open>kill\<close> do; on a runner that was never started, or whose process has already
  exited, it changes nothing and sends no signal. The same holds for any number
  of calls in a row.
\<close>

theorem stop_safe:
  "fst (stop env r) = None
   \<and> fst (stop_all envs r) = None
   \<and> (proc r = None \<longrightarrow> stop env r = (None, r) \<and> stop_all envs r = (None, r))
   \<and> (proc r = Some p \<and> status p = Exited rc \<longrightarrow>
         stop env r = (None, r) \<and> stop_all envs r = (None, r))"
proof -
  have "stop env r = (None, r) \<and> stop_all envs r = (None, r)"
    if "proc r = None \<or> (\<exists>p rc. proc r = Some p \<and> status p = Exited rc)"
    using that stop_idle stop_all_idle by blast
  then show ?thesis
    using stop_no_exn stop_all_no_exn by blast
qed

theorem stop_safe_witness:
  "stop \<lparr> terminate_result = Some OSError, wait_result = Inl OSError, kill_result = Some OSError \<rparr>
        \<lparr> iface = ''wlan0mon'', prefix = ''/tmp/scan'', band = None, channels = None,
          write_interval = 2, airodump_bin = ''airodump-ng'', proc = None \<rparr>
     = (None, \<lparr> iface = ''wlan0mon'', prefix = ''/tmp/scan'', band = None, channels = None,
                write_interval = 2, airodump_bin = ''airodump-ng'', proc = None \<rparr>)
   \<and> stop \<lparr> terminate_result = Some OSError, wait_result = Inl OSError, kill_result = Some OSError \<rparr>
        \<lparr> iface = ''wlan0mon'', prefix = ''/tmp/scan'', band = None, channels = None,
          write_interval = 2, airodump_bin = ''airodump-ng'',
          proc = Some \<lparr> status = Exited 0, signals = [] \<rparr> \<rparr>
     = (None, \<lparr> iface = ''wlan0mon'', prefix = ''/tmp/scan'', band = None, channels = None,
                write_interval = 2, airodump_bin = ''airodump-ng'',
                proc = Some \<lparr> status = Exited 0, signals = [] \<rparr> \<rparr>)
   \<and> stop \<lparr> terminate_result = None, wait_result = Inl TimeoutExpired, kill_result = Some OSError \<rparr>
        \<lparr> iface = ''wlan0mon'', prefix = ''/tmp/scan'', band = None, channels = None,
          write_interval = 2, airodump_bin = ''airodump-ng'',
          proc = Some \<lparr> status = Running, signals = [] \<rparr> \<rparr>
     = (None, \<lparr> iface = ''wlan0mon'', prefix = ''/tmp/scan'', band = None, channels = None,
                write_interval = 2, airodump_bin = ''airodump-ng'',
                proc = Some \<lparr> status = Running, signals = [SIGTERM] \<rparr> \<rparr>)"
proof -
  let ?env = "\<lparr> terminate_result = Some OSError, wait_result = Inl OSError, kill_result = Some OSError \<rparr>"
  let ?r0 = "\<lparr> iface = ''wlan0mon'', prefix = ''/tmp/scan'', band = None, channels = None,
          write_interval = 2, airodump_bin = ''airodump-ng'', proc = None \<rparr>"
  let ?p = "\<lparr> status = Exited 0, signals = [] \<rparr>"
  have a: "proc ?r0 = None" by simp
  have b: "proc (?r0\<lparr>proc := Some ?p\<rparr>) = Some ?p \<and> status ?p = Exited 0" by simp
  have c: "stop \<lparr> terminate_result = None, wait_result = Inl TimeoutExpired, kill_result = Some OSError \<rparr>
        (?r0\<lparr>proc := Some \<lparr> status = Running, signals = [] \<rparr>\<rparr>)
     = (None, ?r0\<lparr>proc := Some \<lparr> status = Running, signals = [SIGTERM] \<rparr>\<rparr>)"
    by (simp add: stop_def terminate_and_wait_def terminate_def wait_or_kill_def wait_def kill_def)
  show ?thesis
    using stop_safe [of ?env ?r0 "[]" ?p 0]
      stop_safe [of ?env "?r0\<lparr>proc := Some ?p\<rparr>" "[]" ?p 0] a b c
    by simp
qed

subsection \<open>The detection loop\<close>

lemma ssid_check_nonempty:
  "ssid_check rules name \<noteq> [] \<longleftrightarrow> name \<noteq> [] \<and> some_pattern_matches rules name"
  by (auto simp: ssid_check_def some_pattern_matches_def filter_empty_conv list_ex_iff)

lemma process_row_severity:
  assumes "bssid a \<noteq> []"
  shows "process_row ouis rules d now_iso now csv_path le a =
     (case severity_of ouis rules a of
        None \<Rightarrow> (None, le)
      | Some sev \<Rightarrow>
          (case should_emit d le
                  (sev, if oui_check ouis (mac_to_oui (bssid a)) then mac_to_oui (bssid a) else [],
                   essid a) now of
             (False, le') \<Rightarrow> (None, le')
           | (True, le') \<Rightarrow>
               (Some \<lparr> p_time = now_iso, p_severity = sev, p_bssid = bssid a,
                       p_channel = channel a, p_power = power a,
                       p_ssid = none_if_empty (essid a),
                       p_oui = (if oui_check ouis (mac_to_oui (bssid a))
                                then Some (mac_to_oui (bssid a)) else None),
                       p_ssid_labels = none_if_empty (ssid_check rules (essid a)),
                       p_source = ''dronescan(airodump-ng)'', p_csv = csv_path \<rparr>,
                le')))"
  using assms by (simp add: process_row_def severity_of_def Let_def)

lemma process_row_alert_severity:
  assumes "bssid a \<noteq> []" and "process_row ouis rules d now_iso now csv_path le a = (Some p, le')"
  shows "severity_of ouis rules a = Some (p_severity p)
         \<and> p_oui p = (if oui_check ouis (mac_to_oui (bssid a))
                      then Some (mac_to_oui (bssid a)) else None)
         \<and> le' = le((p_severity p,
                      if oui_check ouis (mac_to_oui (bssid a)) then mac_to_oui (bssid a) else [],
                      essid a) \<mapsto> now)"
  using assms(2) unfolding process_row_severity [OF assms(1)]
  by (auto simp: should_emit_def Let_def split: option.splits prod.splits bool.splits if_splits)

lemma process_row_emits_iff:
  assumes "bssid a \<noteq> []" and "severity_of ouis rules a = Some sev"
  shows "fst (process_row ouis rules d now_iso now csv_path le a) \<noteq> None \<longleftrightarrow>
         fst (should_emit d le
                (sev, if oui_check ouis (mac_to_oui (bssid a)) then mac_to_oui (bssid a) else [],
                 essid a) now)"
  unfolding process_row_severity [OF assms(1)] assms(2)
  by (simp add: should_emit_def Let_def)

text \<open>
  C2. For a record with a non-empty hardware address, with \<open>oui_hit\<close> the
  result of the vendor-prefix check and the name check giving the matched
  labels: both give \<open>DRONE_CONFIRMED\<close>, the prefix alone \<open>OUI_MATCH\<close>, labels
  alone \<open>SSID_MATCH\<close>, neither gives no severity, and then no alert is emitted
  and the de-duplication state is unchanged. The labels are not empty exactly
  when the name is not empty and some pattern of some label matches it. An alert
  that is emitted carries that severity, and with a severity assigned an alert is
  emitted exactly when \<open>should_emit\<close> says so for the record's key.
\<close>

theorem severity_assignment:
  assumes "bssid a \<noteq> []"
  shows "(oui_check ouis (mac_to_oui (bssid a)) \<and> ssid_check rules (essid a) \<noteq> []
            \<longrightarrow> severity_of ouis rules a = Some DRONE_CONFIRMED)
         \<and> (oui_check ouis (mac_to_oui (bssid a)) \<and> ssid_check rules (essid a) = []
            \<longrightarrow> severity_of ouis rules a = Some OUI_MATCH)
         \<and> (\<not> oui_check ouis (mac_to_oui (bssid a)) \<and> ssid_check rules (essid a) \<noteq> []
            \<longrightarrow> severity_of ouis rules a = Some SSID_MATCH)
         \<and> (\<not> oui_check ouis (mac_to_oui (bssid a)) \<and> ssid_check rules (essid a) = []
            \<longrightarrow> severity_of ouis rules a = None
                \<and> process_row ouis rules d now_iso now csv_path le a = (None, le))
         \<and> (ssid_check rules (essid a) \<noteq> [] \<longleftrightarrow>
              essid a \<noteq> [] \<and> some_pattern_matches rules (essid a))
         \<and> (\<forall>p le'. process_row ouis rules d now_iso now csv_path le a = (Some p, le')
              \<longrightarrow> severity_of ouis rules a = Some (p_severity p))
         \<and> (\<forall>sev. severity_of ouis rules a = Some sev \<longrightarrow>
              (fst (process_row ouis rules d now_iso now csv_path le a) \<noteq> None \<longleftrightarrow>
               fst (should_emit d le
                      (sev, if oui_check ouis (mac_to_oui (bssid a))
                            then mac_to_oui (bssid a) else [],
                       essid a) now)))"
proof -
  have sev: "severity_of ouis rules a =
      (if oui_check ouis (mac_to_oui (bssid a)) \<and> ssid_check rules (essid a) \<noteq> []
         then Some DRONE_CONFIRMED
       else if oui_check ouis (mac_to_oui (bssid a)) then Some OUI_MATCH
       else if ssid_check rules (essid a) \<noteq> [] then Some SSID_MATCH
       else None)"
    by (simp add: severity_of_def classify_def)
  have none: "process_row ouis rules d now_iso now csv_path le a = (None, le)"
    if "severity_of ouis rules a = None"
    using that by (simp add: process_row_severity [OF assms])
  have alert: "\<forall>p le'. process_row ouis rules d now_iso now csv_path le a = (Some p, le')
              \<longrightarrow> severity_of ouis rules a = Some (p_severity p)"
    using process_row_alert_severity [OF assms] by blast
  have emits: "\<forall>sev. severity_of ouis rules a = Some sev \<longrightarrow>
              (fst (process_row ouis rules d now_iso now csv_path le a) \<noteq> None \<longleftrightarrow>
               fst (should_emit d le
                      (sev, if oui_check ouis (mac_to_oui (bssid a))
                            then mac_to_oui (bssid a) else [],
                       essid a) now))"
    using process_row_emits_iff [OF assms] by blast
  from sev none alert emits ssid_check_nonempty [of rules "essid a"] show ?thesis
    by presburger
qed

theorem severity_assignment_witness:
  "severity_of {''AA:BB:CC''} [(''dji'', [\<lambda>s. take 3 (upper s) = ''DJI''])]
      \<lparr> bssid = ''AA:BB:CC:11:22:33'', essid = ''DJI-Mavic-1234'', channel = ''6'',
        power = ''-40'', first_seen = ''t1'', last_seen = ''t2'' \<rparr> = Some DRONE_CONFIRMED
   \<and> severity_of {''AA:BB:CC''} [(''dji'', [\<lambda>s. take 3 (upper s) = ''DJI''])]
      \<lparr> bssid = ''AA:BB:CC:11:22:33'', essid = ''Generic'', channel = ''6'',
        power = ''-40'', first_seen = ''t1'', last_seen = ''t2'' \<rparr> = Some OUI_MATCH
   \<and> severity_of {''AA:BB:CC''} [(''dji'', [\<lambda>s. take 3 (upper s) = ''DJI''])]
      \<lparr> bssid = ''11:22:33:44:55:66'', essid = ''DJI-Mavic-1234'', channel = ''6'',
        power = ''-40'', first_seen = ''t1'', last_seen = ''t2'' \<rparr> = Some SSID_MATCH
   \<and> process_row {''AA:BB:CC''} [(''dji'', [\<lambda>s. take 3 (upper s) = ''DJI''])] 120
        ''2024-01-01T10:00:00Z'' 1704103200 ''scan-01.csv'' Map.empty
      \<lparr> bssid = ''11:22:33:44:55:66'', essid = ''Generic'', channel = ''6'',
        power = ''-40'', first_seen = ''t1'', last_seen = ''t2'' \<rparr> = (None, Map.empty)"
proof -
  let ?rules = "[(''dji'', [\<lambda>s. take 3 (upper s) = ''DJI''])]"
  let ?a = "\<lparr> bssid = ''AA:BB:CC:11:22:33'', essid = ''DJI-Mavic-1234'', channel = ''6'',
        power = ''-40'', first_seen = ''t1'', last_seen = ''t2'' \<rparr>"
  have m: "mac_to_oui ''AA:BB:CC:11:22:33'' = ''AA:BB:CC''"
    "mac_to_oui ''11:22:33:44:55:66'' = ''11:22:33''"
    by (simp_all add: mac_to_oui_def strip_def is_space_def whitespace_def upper_def
        upper_char_def ascii_lower_def ascii_upper_def replace_chr_def)
  have s: "ssid_check ?rules ''DJI-Mavic-1234'' = [''dji'']" "ssid_check ?rules ''Generic'' = []"
    by (simp_all add: ssid_check_def upper_def upper_char_def ascii_lower_def ascii_upper_def)
  have ne: "bssid ?a \<noteq> []" "bssid (?a\<lparr>essid := ''Generic''\<rparr>) \<noteq> []"
    "bssid (?a\<lparr>bssid := ''11:22:33:44:55:66''\<rparr>) \<noteq> []"
    "bssid (?a\<lparr>bssid := ''11:22:33:44:55:66'', essid := ''Generic''\<rparr>) \<noteq> []"
    by simp_all
  show ?thesis
    using severity_assignment [OF ne(1), of "{''AA:BB:CC''}" ?rules]
      severity_assignment [OF ne(2), of "{''AA:BB:CC''}" ?rules]
      severity_assignment [OF ne(3), of "{''AA:BB:CC''}" ?rules]
      severity_assignment [OF ne(4), of "{''AA:BB:CC''}" ?rules 120
        "''2024-01-01T10:00:00Z''" 1704103200 "''scan-01.csv''" Map.empty]
    by (simp add: m s oui_check_def)
qed

text \<open>
  C6. Two records that agree on hardware address and broadcast name, whatever
  their channel, power and timestamps, processed against the same rule sets and
  the same de-duplication state at the same time, leave the same state, are
  both emitted or both not, and get the same severity. And after the first is
  emitted at time \<open>now\<close>, the second, sighted at a time \<open>now'\<close> less than the
  window after it, is suppressed and leaves the state unchanged.
\<close>

theorem decision_ignores_channel_power:
  assumes "bssid a1 = bssid a2" and "essid a1 = essid a2"
  shows "snd (process_row ouis rules d now_iso now csv_path le a1)
           = snd (process_row ouis rules d now_iso now csv_path le a2)
         \<and> (fst (process_row ouis rules d now_iso now csv_path le a1) = None \<longleftrightarrow>
            fst (process_row ouis rules d now_iso now csv_path le a2) = None)
         \<and> map_option p_severity (fst (process_row ouis rules d now_iso now csv_path le a1))
           = map_option p_severity (fst (process_row ouis rules d now_iso now csv_path le a2))
         \<and> (\<forall>p le1. process_row ouis rules d now_iso now csv_path le a1 = (Some p, le1)
                    \<and> now' - now < of_int d
              \<longrightarrow> process_row ouis rules d now_iso' now' csv_path' le1 a2 = (None, le1))"
proof -
  have same: "snd (process_row ouis rules d now_iso now csv_path le a1)
           = snd (process_row ouis rules d now_iso now csv_path le a2)
         \<and> (fst (process_row ouis rules d now_iso now csv_path le a1) = None \<longleftrightarrow>
            fst (process_row ouis rules d now_iso now csv_path le a2) = None)
         \<and> map_option p_severity (fst (process_row ouis rules d now_iso now csv_path le a1))
           = map_option p_severity (fst (process_row ouis rules d now_iso now csv_path le a2))"
    using assms
    by (simp add: process_row_def Let_def split: option.splits prod.splits bool.splits)
  have later: "process_row ouis rules d now_iso' now' csv_path' le1 a2 = (None, le1)"
    if emitted: "process_row ouis rules d now_iso now csv_path le a1 = (Some p, le1)"
      and within: "now' - now < of_int d" for p le1
  proof -
    have ne: "bssid a1 \<noteq> []"
      using emitted by (auto simp: process_row_def)
    then have ne2: "bssid a2 \<noteq> []" using assms by simp
    let ?k = "(p_severity p,
               if oui_check ouis (mac_to_oui (bssid a2)) then mac_to_oui (bssid a2) else [],
               essid a2)"
    from process_row_alert_severity [OF ne emitted]
    have sev: "severity_of ouis rules a1 = Some (p_severity p)" and le1: "le1 = le(?k \<mapsto> now)"
      by (simp_all add: assms)
    have sev2: "severity_of ouis rules a2 = Some (p_severity p)"
      using sev assms by (simp add: severity_of_def)
    have "should_emit d le1 ?k now' = (False, le1)"
      using within by (simp add: should_emit_def last_time_def le1)
    then show ?thesis
      unfolding process_row_severity [OF ne2] sev2 by simp
  qed
  from same later show ?thesis by blast
qed

theorem decision_ignores_channel_power_witness:
  "fst (process_row {''AA:BB:CC''} [] 120 ''2024-01-01T10:00:00Z'' 1704103200 ''scan-01.csv''
          Map.empty
          \<lparr> bssid = ''AA:BB:CC:11:22:33'', essid = ''Generic'', channel = ''6'',
            power = ''-40'', first_seen = ''t1'', last_seen = ''t2'' \<rparr>) \<noteq> None
   \<and> snd (process_row {''AA:BB:CC''} [] 120 ''2024-01-01T10:00:00Z'' 1704103200 ''scan-01.csv''
          Map.empty
          \<lparr> bssid = ''AA:BB:CC:11:22:33'', essid = ''Generic'', channel = ''6'',
            power = ''-40'', first_seen = ''t1'', last_seen = ''t2'' \<rparr>)
       = [(OUI_MATCH, ''AA:BB:CC'', ''Generic'') \<mapsto> 1704103200]
   \<and> snd (process_row {''AA:BB:CC''} [] 120 ''2024-01-01T10:00:00Z'' 1704103200 ''scan-01.csv''
          Map.empty
          \<lparr> bssid = ''AA:BB:CC:11:22:33'', essid = ''Generic'', channel = ''11'',
            power = ''-70'', first_seen = ''t1'', last_seen = ''t3'' \<rparr>)
       = [(OUI_MATCH, ''AA:BB:CC'', ''Generic'') \<mapsto> 1704103200]
   \<and> process_row {''AA:BB:CC''} [] 120 ''2024-01-01T10:00:02Z'' 1704103202 ''scan-01.csv''
          [(OUI_MATCH, ''AA:BB:CC'', ''Generic'') \<mapsto> 1704103200]
          \<lparr> bssid = ''AA:BB:CC:11:22:33'', essid = ''Generic'', channel = ''11'',
            power = ''-70'', first_seen = ''t1'', last_seen = ''t3'' \<rparr>
       = (None, [(OUI_MATCH, ''AA:BB:CC'', ''Generic'') \<mapsto> 1704103200])"
proof -
  let ?a1 = "\<lparr> bssid = ''AA:BB:CC:11:22:33'', essid = ''Generic'', channel = ''6'',
            power = ''-40'', first_seen = ''t1'', last_seen = ''t2'' \<rparr>"
  let ?a2 = "\<lparr> bssid = ''AA:BB:CC:11:22:33'', essid = ''Generic'', channel = ''11'',
            power = ''-70'', first_seen = ''t1'', last_seen = ''t3'' \<rparr>"
  let ?le1 = "[(OUI_MATCH, ''AA:BB:CC'', ''Generic'') \<mapsto> (1704103200::real)]"
  let ?p = "\<lparr> p_time = ''2024-01-01T10:00:00Z'', p_severity = OUI_MATCH,
              p_bssid = ''AA:BB:CC:11:22:33'', p_channel = ''6'', p_power = ''-40'',
              p_ssid = Some ''Generic'', p_oui = Some ''AA:BB:CC'', p_ssid_labels = None,
              p_source = ''dronescan(airodump-ng)'', p_csv = ''scan-01.csv'' \<rparr>"
  have m: "mac_to_oui ''AA:BB:CC:11:22:33'' = ''AA:BB:CC''"
    by (simp add: mac_to_oui_def strip_def is_space_def whitespace_def upper_def
        upper_char_def ascii_lower_def ascii_upper_def replace_chr_def)
  have first: "process_row {''AA:BB:CC''} [] 120 ''2024-01-01T10:00:00Z'' 1704103200
      ''scan-01.csv'' Map.empty ?a1 = (Some ?p, ?le1)"
    by (simp add: process_row_def m oui_check_def ssid_check_def classify_def should_emit_def
        last_time_def none_if_empty_def Let_def)
  have eq: "bssid ?a1 = bssid ?a2" "essid ?a1 = essid ?a2" by simp_all
  have within: "(1704103202::real) - 1704103200 < of_int 120" by simp
  note inst = decision_ignores_channel_power [OF eq, of "{''AA:BB:CC''}" "[]" 120
      "''2024-01-01T10:00:00Z''" 1704103200 "''scan-01.csv''" Map.empty
      1704103202 "''2024-01-01T10:00:02Z''" "''scan-01.csv''"]
  have one: "fst (process_row {''AA:BB:CC''} [] 120 ''2024-01-01T10:00:00Z'' 1704103200
      ''scan-01.csv'' Map.empty ?a1) \<noteq> None"
    and st1: "snd (process_row {''AA:BB:CC''} [] 120 ''2024-01-01T10:00:00Z'' 1704103200
      ''scan-01.csv'' Map.empty ?a1) = ?le1"
    unfolding first by simp_all
  from inst have "snd (process_row {''AA:BB:CC''} [] 120 ''2024-01-01T10:00:00Z'' 1704103200
      ''scan-01.csv'' Map.empty ?a1)
    = snd (process_row {''AA:BB:CC''} [] 120 ''2024-01-01T10:00:00Z'' 1704103200
      ''scan-01.csv'' Map.empty ?a2)"
    by (rule conjunct1)
  with st1 have st2: "snd (process_row {''AA:BB:CC''} [] 120 ''2024-01-01T10:00:00Z'' 1704103200
      ''scan-01.csv'' Map.empty ?a2) = ?le1"
    by simp
  from inst first within
  have again: "process_row {''AA:BB:CC''} [] 120 ''2024-01-01T10:00:02Z'' 1704103202
      ''scan-01.csv'' ?le1 ?a2 = (None, ?le1)"
    by blast
  from one st1 st2 again show ?thesis by blast
qed

text \<open>
  C10, as the code has it. \<open>mac_to_oui\<close> returns the empty string exactly
  when the address, stripped, upper-cased and with dashes replaced by colons,
  fails the length test: it is not 17 characters with exactly 5 colons. An
  address in canonical form passes the test, so an address that fails it is not
  in canonical form; an address that passes it gets as prefix what stands
  before its third colon. For a record whose address is not empty and fails the
  test, the vendor-prefix check gives no hit, and the severity is \<open>SSID_MATCH\<close>
  when the name check gives a label and none otherwise, so never \<open>OUI_MATCH\<close>
  or \<open>DRONE_CONFIRMED\<close>. An alert emitted for it is an \<open>SSID_MATCH\<close> without
  a prefix, and when a label matches such an alert is emitted exactly when
  \<open>should_emit\<close> says so. The loop body has no failing step for such a record.
\<close>

theorem malformed_address_only_ssid_match:
  "(mac_to_oui (bssid a) = [] \<longleftrightarrow>
      \<not> length_test (replace_chr CHR ''-'' CHR '':'' (upper (strip (bssid a)))))
   \<and> (canonical_form (replace_chr CHR ''-'' CHR '':'' (upper (strip (bssid a))))
        \<longrightarrow> length_test (replace_chr CHR ''-'' CHR '':'' (upper (strip (bssid a)))))
   \<and> (length_test (replace_chr CHR ''-'' CHR '':'' (upper (strip (bssid a))))
        \<longrightarrow> mac_to_oui (bssid a)
              = join '':'' (take 3 (split_chr CHR '':''
                  (replace_chr CHR ''-'' CHR '':'' (upper (strip (bssid a)))))))
   \<and> (bssid a \<noteq> [] \<and> \<not> length_test (replace_chr CHR ''-'' CHR '':'' (upper (strip (bssid a))))
        \<longrightarrow> \<not> oui_check ouis (mac_to_oui (bssid a))
            \<and> severity_of ouis rules a
                 = (if ssid_check rules (essid a) = [] then None else Some SSID_MATCH)
            \<and> severity_of ouis rules a \<noteq> Some OUI_MATCH
            \<and> severity_of ouis rules a \<noteq> Some DRONE_CONFIRMED
            \<and> (\<forall>p le'. process_row ouis rules d now_iso now csv_path le a = (Some p, le')
                 \<longrightarrow> p_severity p = SSID_MATCH \<and> p_oui p = None)
            \<and> (ssid_check rules (essid a) \<noteq> [] \<longrightarrow>
                 (fst (process_row ouis rules d now_iso now csv_path le a) \<noteq> None \<longleftrightarrow>
                  fst (should_emit d le (SSID_MATCH, [], essid a) now))))"
proof -
  let ?n = "replace_chr CHR ''-'' CHR '':'' (upper (strip (bssid a)))"
  have iff: "mac_to_oui (bssid a) = [] \<longleftrightarrow> \<not> length_test ?n"
    by (rule mac_to_oui_empty_iff)
  have canon: "canonical_form ?n \<longrightarrow> length_test ?n"
    using canonical_form_length_test by blast
  have val: "length_test ?n \<longrightarrow>
      mac_to_oui (bssid a) = join '':'' (take 3 (split_chr CHR '':'' ?n))"
    by (simp add: mac_to_oui_def length_test_def Let_def)
  have rest: "\<not> oui_check ouis (mac_to_oui (bssid a))
            \<and> severity_of ouis rules a
                 = (if ssid_check rules (essid a) = [] then None else Some SSID_MATCH)
            \<and> severity_of ouis rules a \<noteq> Some OUI_MATCH
            \<and> severity_of ouis rules a \<noteq> Some DRONE_CONFIRMED
            \<and> (\<forall>p le'. process_row ouis rules d now_iso now csv_path le a = (Some p, le')
                 \<longrightarrow> p_severity p = SSID_MATCH \<and> p_oui p = None)
            \<and> (ssid_check rules (essid a) \<noteq> [] \<longrightarrow>
                 (fst (process_row ouis rules d now_iso now csv_path le a) \<noteq> None \<longleftrightarrow>
                  fst (should_emit d le (SSID_MATCH, [], essid a) now)))"
    if ne: "bssid a \<noteq> []" and bad: "\<not> length_test ?n"
  proof -
    from bad iff have oui: "mac_to_oui (bssid a) = []" by simp
    then have hit: "\<not> oui_check ouis (mac_to_oui (bssid a))"
      by (simp add: oui_check_def)
    have sev: "severity_of ouis rules a
               = (if ssid_check rules (essid a) = [] then None else Some SSID_MATCH)"
      using hit by (simp add: severity_of_def classify_def)
    have alert: "p_severity p = SSID_MATCH \<and> p_oui p = None"
      if "process_row ouis rules d now_iso now csv_path le a = (Some p, le')" for p le'
      using process_row_alert_severity [OF ne that] sev hit
      by (simp split: if_splits)
    have emits: "fst (process_row ouis rules d now_iso now csv_path le a) \<noteq> None \<longleftrightarrow>
                 fst (should_emit d le (SSID_MATCH, [], essid a) now)"
      if "ssid_check rules (essid a) \<noteq> []"
      using process_row_emits_iff [OF ne, of ouis rules SSID_MATCH d now_iso now csv_path le]
        sev hit that by simp
    from hit sev alert emits show ?thesis by simp
  qed
  from iff canon val rest show ?thesis by blast
qed

theorem malformed_address_only_ssid_match_witness:
  "mac_to_oui ''AABBCC112233'' = []
   \<and> \<not> canonical_form ''AABBCC112233''
   \<and> process_row {''AA:BB:CC''} [(''dji'', [\<lambda>s. take 3 (upper s) = ''DJI''])] 120
        ''2024-01-01T10:00:00Z'' 1704103200 ''scan-01.csv'' Map.empty
        \<lparr> bssid = ''AABBCC112233'', essid = ''DJI-Mavic-1234'', channel = ''6'',
          power = ''-40'', first_seen = ''t1'', last_seen = ''t2'' \<rparr>
     = (Some \<lparr> p_time = ''2024-01-01T10:00:00Z'', p_severity = SSID_MATCH,
               p_bssid = ''AABBCC112233'', p_channel = ''6'', p_power = ''-40'',
               p_ssid = Some ''DJI-Mavic-1234'', p_oui = None, p_ssid_labels = Some [''dji''],
               p_source = ''dronescan(airodump-ng)'', p_csv = ''scan-01.csv'' \<rparr>,
        [(SSID_MATCH, [], ''DJI-Mavic-1234'') \<mapsto> 1704103200])
   \<and> severity_of {''AA:BB:CC''} [(''dji'', [\<lambda>s. take 3 (upper s) = ''DJI''])]
        \<lparr> bssid = ''AABBCC112233'', essid = ''Generic'', channel = ''6'',
          power = ''-40'', first_seen = ''t1'', last_seen = ''t2'' \<rparr> = None
   \<and> canonical_form ''AA:BB:CC:11:22:33''
   \<and> mac_to_oui ''AA:BB:CC:11:22:33'' = ''AA:BB:CC''"
proof -
  let ?rules = "[(''dji'', [\<lambda>s. take 3 (upper s) = ''DJI''])]"
  let ?a = "\<lparr> bssid = ''AABBCC112233'', essid = ''DJI-Mavic-1234'', channel = ''6'',
          power = ''-40'', first_seen = ''t1'', last_seen = ''t2'' \<rparr>"
  let ?g = "\<lparr> bssid = ''AABBCC112233'', essid = ''Generic'', channel = ''6'',
          power = ''-40'', first_seen = ''t1'', last_seen = ''t2'' \<rparr>"
  let ?c = "\<lparr> bssid = ''AA:BB:CC:11:22:33'', essid = ''Generic'', channel = ''6'',
          power = ''-40'', first_seen = ''t1'', last_seen = ''t2'' \<rparr>"
  have n: "replace_chr CHR ''-'' CHR '':'' (upper (strip ''AABBCC112233'')) = ''AABBCC112233''"
    "replace_chr CHR ''-'' CHR '':'' (upper (strip ''AA:BB:CC:11:22:33'')) = ''AA:BB:CC:11:22:33''"
    by (simp_all add: strip_def is_space_def whitespace_def upper_def
        upper_char_def ascii_lower_def ascii_upper_def replace_chr_def)
  have bad: "\<not> length_test ''AABBCC112233''"
    by (simp add: length_test_def)
  have canon: "canonical_form ''AA:BB:CC:11:22:33''"
    by (simp add: canonical_form_def)
  have s: "ssid_check ?rules ''DJI-Mavic-1234'' = [''dji'']" "ssid_check ?rules ''Generic'' = []"
    by (simp_all add: ssid_check_def upper_def upper_char_def ascii_lower_def ascii_upper_def)
  have run: "process_row {''AA:BB:CC''} ?rules 120
        ''2024-01-01T10:00:00Z'' 1704103200 ''scan-01.csv'' Map.empty ?a
     = (Some \<lparr> p_time = ''2024-01-01T10:00:00Z'', p_severity = SSID_MATCH,
               p_bssid = ''AABBCC112233'', p_channel = ''6'', p_power = ''-40'',
               p_ssid = Some ''DJI-Mavic-1234'', p_oui = None, p_ssid_labels = Some [''dji''],
               p_source = ''dronescan(airodump-ng)'', p_csv = ''scan-01.csv'' \<rparr>,
        [(SSID_MATCH, [], ''DJI-Mavic-1234'') \<mapsto> 1704103200])"
    by (simp add: process_row_def mac_to_oui_def n oui_check_def s classify_def should_emit_def
        last_time_def none_if_empty_def Let_def)
  from malformed_address_only_ssid_match [of ?g "{''AA:BB:CC''}" ?rules] bad
  have one: "mac_to_oui ''AABBCC112233'' = [] \<and> \<not> canonical_form ''AABBCC112233''
      \<and> severity_of {''AA:BB:CC''} ?rules ?g = None"
    by (simp add: n s)
  from malformed_address_only_ssid_match [of ?c] canon
  have two: "mac_to_oui ''AA:BB:CC:11:22:33'' = ''AA:BB:CC''"
    by (simp add: n)
  from one run two canon show ?thesis by simp
qed

text \<open>
  C10, as it is stated (every address that is not in canonical form gets no
  prefix), fails: \<open>AA:BB:CC:D:EE:FFF\<close> is 17 characters with 5 colons but its
  groups are not of two characters each, yet \<open>mac_to_oui\<close> gives it the prefix
  \<open>AA:BB:CC\<close>, and with that prefix in the set the record is an \<open>OUI_MATCH\<close>,
  or a \<open>DRONE_CONFIRMED\<close> when its name matches as well.
\<close>

theorem noncanonical_address_oui_match_counterexample:
  "\<not> canonical_form (replace_chr CHR ''-'' CHR '':'' (upper (strip ''AA:BB:CC:D:EE:FFF'')))
   \<and> mac_to_oui ''AA:BB:CC:D:EE:FFF'' = ''AA:BB:CC''
   \<and> severity_of {''AA:BB:CC''} [(''dji'', [\<lambda>s. take 3 (upper s) = ''DJI''])]
        \<lparr> bssid = ''AA:BB:CC:D:EE:FFF'', essid = ''Generic'', channel = ''6'',
          power = ''-40'', first_seen = ''t1'', last_seen = ''t2'' \<rparr> = Some OUI_MATCH
   \<and> severity_of {''AA:BB:CC''} [(''dji'', [\<lambda>s. take 3 (upper s) = ''DJI''])]
        \<lparr> bssid = ''AA:BB:CC:D:EE:FFF'', essid = ''DJI-Mavic-1234'', channel = ''6'',
          power = ''-40'', first_seen = ''t1'', last_seen = ''t2'' \<rparr> = Some DRONE_CONFIRMED
   \<and> process_row {''AA:BB:CC''} [(''dji'', [\<lambda>s. take 3 (upper s) = ''DJI''])] 120
        ''2024-01-01T10:00:00Z'' 1704103200 ''scan-01.csv'' Map.empty
        \<lparr> bssid = ''AA:BB:CC:D:EE:FFF'', essid = ''Generic'', channel = ''6'',
          power = ''-40'', first_seen = ''t1'', last_seen = ''t2'' \<rparr>
     = (Some \<lparr> p_time = ''2024-01-01T10:00:00Z'', p_severity = OUI_MATCH,
               p_bssid = ''AA:BB:CC:D:EE:FFF'', p_channel = ''6'', p_power = ''-40'',
               p_ssid = Some ''Generic'', p_oui = Some ''AA:BB:CC'', p_ssid_labels = None,
               p_source = ''dronescan(airodump-ng)'', p_csv = ''scan-01.csv'' \<rparr>,
        [(OUI_MATCH, ''AA:BB:CC'', ''Generic'') \<mapsto> 1704103200])"
proof -
  let ?rules = "[(''dji'', [\<lambda>s. take 3 (upper s) = ''DJI''])]"
  have n: "replace_chr CHR ''-'' CHR '':'' (upper (strip ''AA:BB:CC:D:EE:FFF'')) = ''AA:BB:CC:D:EE:FFF''"
    by (simp add: strip_def is_space_def whitespace_def upper_def
        upper_char_def ascii_lower_def ascii_upper_def replace_chr_def)
  have c: "\<not> canonical_form ''AA:BB:CC:D:EE:FFF''"
    by (simp add: canonical_form_def)
  have m: "mac_to_oui ''AA:BB:CC:D:EE:FFF'' = ''AA:BB:CC''"
    by (simp add: mac_to_oui_def n)
  have s: "ssid_check ?rules ''DJI-Mavic-1234'' = [''dji'']" "ssid_check ?rules ''Generic'' = []"
    by (simp_all add: ssid_check_def upper_def upper_char_def ascii_lower_def ascii_upper_def)
  have sev: "severity_of {''AA:BB:CC''} ?rules
        \<lparr> bssid = ''AA:BB:CC:D:EE:FFF'', essid = ''Generic'', channel = ''6'',
          power = ''-40'', first_seen = ''t1'', last_seen = ''t2'' \<rparr> = Some OUI_MATCH"
    "severity_of {''AA:BB:CC''} ?rules
        \<lparr> bssid = ''AA:BB:CC:D:EE:FFF'', essid = ''DJI-Mavic-1234'', channel = ''6'',
          power = ''-40'', first_seen = ''t1'', last_seen = ''t2'' \<rparr> = Some DRONE_CONFIRMED"
    by (simp_all add: severity_of_def m s oui_check_def classify_def)
  have run: "process_row {''AA:BB:CC''} ?rules 120
        ''2024-01-01T10:00:00Z'' 1704103200 ''scan-01.csv'' Map.empty
        \<lparr> bssid = ''AA:BB:CC:D:EE:FFF'', essid = ''Generic'', channel = ''6'',
          power = ''-40'', first_seen = ''t1'', last_seen = ''t2'' \<rparr>
     = (Some \<lparr> p_time = ''2024-01-01T10:00:00Z'', p_severity = OUI_MATCH,
               p_bssid = ''AA:BB:CC:D:EE:FFF'', p_channel = ''6'', p_power = ''-40'',
               p_ssid = Some ''Generic'', p_oui = Some ''AA:BB:CC'', p_ssid_labels = None,
               p_source = ''dronescan(airodump-ng)'', p_csv = ''scan-01.csv'' \<rparr>,
        [(OUI_MATCH, ''AA:BB:CC'', ''Generic'') \<mapsto> 1704103200])"
    by (simp add: process_row_def m oui_check_def s classify_def should_emit_def
        last_time_def none_if_empty_def Let_def)
  from c m sev run show ?thesis by (simp only: n) simp
qed

end
